theory Spec2Isabelle
  imports Main "HOL-Library.Word" "HOL-Library.Product_Lexorder" "HOL-Library.List_Lexorder"
begin

section \<open>QString operations used by WalletAdapter.cpp\<close>

text \<open>
  Paths and file names are \<open>string\<close>s with \<open>/\<close> as the only separator (Qt uses it on
  every platform). The functions below are the QString and QFileInfo operations that the
  adapter calls, with the results Qt documents for them.
\<close>

definition endsWith :: "string \<Rightarrow> string \<Rightarrow> bool" where
  "endsWith s suffix \<longleftrightarrow>
     length suffix \<le> length s \<and> drop (length s - length suffix) s = suffix"

text \<open>
  \<open>QString::lastIndexOf(str)\<close>: the index of the last occurrence of \<open>str\<close>, or \<open>-1\<close>
  when there is none. The scan runs forward and remembers the last position that matches.
\<close>

fun lastIndexOf_scan :: "string \<Rightarrow> string \<Rightarrow> int \<Rightarrow> int \<Rightarrow> int" where
  "lastIndexOf_scan [] str i found = (if str = [] then i else found)"
| "lastIndexOf_scan (c # cs) str i found =
     lastIndexOf_scan cs str (i + 1) (if take (length str) (c # cs) = str then i else found)"

definition lastIndexOf :: "string \<Rightarrow> string \<Rightarrow> int" where
  "lastIndexOf s str = lastIndexOf_scan s str 0 (- 1)"

text \<open>
  \<open>QString::replace(position, n, after)\<close>: a position outside the string (in particular
  the \<open>-1\<close> of a failed search) leaves the string as it is; \<open>n\<close> is cut at the end of the
  string.
\<close>

definition replace_at :: "string \<Rightarrow> int \<Rightarrow> nat \<Rightarrow> string \<Rightarrow> string" where
  "replace_at s position n after =
     (if position < 0 \<or> int (length s) < position then s
      else take (nat position) s @ after @ drop (nat position + n) s)"

text \<open>\<open>QString::section(".", 0, 0)\<close>: the text before the first dot.\<close>

definition section0 :: "string \<Rightarrow> string" where
  "section0 s = takeWhile (\<lambda>c. c \<noteq> CHR ''.'') s"

text \<open>\<open>QFileInfo::fileName\<close> and \<open>QFileInfo::path\<close>: the text after, and before, the last \<open>/\<close>.\<close>

definition fileName :: "string \<Rightarrow> string" where
  "fileName p = rev (takeWhile (\<lambda>c. c \<noteq> CHR ''/'') (rev p))"

definition dirPath :: "string \<Rightarrow> string" where
  "dirPath p = rev (drop 1 (dropWhile (\<lambda>c. c \<noteq> CHR ''/'') (rev p)))"

text \<open>
  \<open>QDir::absoluteFilePath(name)\<close> and \<open>QFileInfo(dir, name).filePath()\<close> for a relative
  \<open>name\<close> and a directory given by its absolute path without a trailing separator. In
  this writing the root directory is the empty path: \<open>dirPath\<close> of \<open>/x\<close> is empty, and a
  file system in which files can be made at the top lists the empty path among its
  directories. Paths are absolute; a path without any separator is read as one at the
  top.
\<close>

definition filePath :: "string \<Rightarrow> string \<Rightarrow> string" where
  "filePath dir name = dir @ ''/'' @ name"

section \<open>Local time and its rendering\<close>

record QDateTime =
  dt_year :: nat
  dt_month :: nat
  dt_day :: nat
  dt_hour :: nat
  dt_minute :: nat
  dt_second :: nat

definition digit :: "nat \<Rightarrow> char" where
  "digit d = ''0123456789'' ! (d mod 10)"

definition fmt_dd :: "nat \<Rightarrow> string" where
  "fmt_dd n = [digit (n div 10), digit n]"

definition fmt_yyyy :: "nat \<Rightarrow> string" where
  "fmt_yyyy n = [digit (n div 1000), digit (n div 100), digit (n div 10), digit n]"

text \<open>
  \<open>QLocale(QLocale::English).toString(t, ".dd-MM-yyyy-HH-mm")\<close>, for years up to 9999.
  Seconds are not part of the format.
\<close>

definition toString_backup :: "QDateTime \<Rightarrow> string" where
  "toString_backup t =
     ''.'' @ fmt_dd (dt_day t) @ ''-'' @ fmt_dd (dt_month t) @ ''-'' @ fmt_yyyy (dt_year t)
       @ ''-'' @ fmt_dd (dt_hour t) @ ''-'' @ fmt_dd (dt_minute t)"

definition same_minute :: "QDateTime \<Rightarrow> QDateTime \<Rightarrow> bool" where
  "same_minute a b \<longleftrightarrow>
     dt_year a = dt_year b \<and> dt_month a = dt_month b \<and> dt_day a = dt_day b \<and>
     dt_hour a = dt_hour b \<and> dt_minute a = dt_minute b"

section \<open>The file system as QFile and QDir see it\<close>

text \<open>
  Regular files carry their bytes and their modification time; directories are listed
  apart; \<open>fs_clock\<close> is the modification time that the platform stamps on a file written
  now (any value: nothing assumes that it grows). There are no symbolic links and no
  permissions: an operation fails only for the reasons written out below. The operations
  return the new file system; where the adapter ignores Qt's boolean result, so does the
  model.
\<close>

record regular_file =
  content :: string
  mtime :: nat

record filesystem =
  fs_files :: "(string \<times> regular_file) list"
  fs_dirs :: "string list"
  fs_clock :: nat

definition lookup_file :: "filesystem \<Rightarrow> string \<Rightarrow> regular_file option" where
  "lookup_file fsys p = map_of (fs_files fsys) p"

definition QDir_exists :: "filesystem \<Rightarrow> string \<Rightarrow> bool" where
  "QDir_exists fsys p \<longleftrightarrow> p \<in> set (fs_dirs fsys)"

definition QFile_exists :: "filesystem \<Rightarrow> string \<Rightarrow> bool" where
  "QFile_exists fsys p \<longleftrightarrow> lookup_file fsys p \<noteq> None \<or> QDir_exists fsys p"

definition QFile_remove :: "string \<Rightarrow> filesystem \<Rightarrow> filesystem" where
  "QFile_remove p fsys = fsys\<lparr>fs_files := filter (\<lambda>e. fst e \<noteq> p) (fs_files fsys)\<rparr>"

text \<open>
  \<open>QFile::copy\<close> refuses to overwrite, and needs the source to be a regular file and the
  directory of the destination to exist.
\<close>

definition QFile_copy :: "string \<Rightarrow> string \<Rightarrow> filesystem \<Rightarrow> filesystem" where
  "QFile_copy src dst fsys =
     (case lookup_file fsys src of
        None \<Rightarrow> fsys
      | Some f \<Rightarrow>
          if QFile_exists fsys dst \<or> \<not> QDir_exists fsys (dirPath dst) then fsys
          else fsys\<lparr>fs_files := fs_files fsys @ [(dst, \<lparr>content = content f, mtime = fs_clock fsys\<rparr>)]\<rparr>)"

definition QFile_rename :: "string \<Rightarrow> string \<Rightarrow> filesystem \<Rightarrow> filesystem" where
  "QFile_rename oldName newName fsys =
     (case lookup_file fsys oldName of
        None \<Rightarrow> fsys
      | Some f \<Rightarrow>
          if QFile_exists fsys newName \<or> \<not> QDir_exists fsys (dirPath newName) then fsys
          else fsys\<lparr>fs_files := filter (\<lambda>e. fst e \<noteq> oldName) (fs_files fsys) @ [(newName, f)]\<rparr>)"

definition QDir_mkdir :: "string \<Rightarrow> filesystem \<Rightarrow> filesystem" where
  "QDir_mkdir p fsys =
     (if QFile_exists fsys p \<or> \<not> QDir_exists fsys (dirPath p) then fsys
      else fsys\<lparr>fs_dirs := fs_dirs fsys @ [p]\<rparr>)"

text \<open>
  \<open>QDir::entryInfoList\<close> with one name filter, the filter
  \<open>Files | Hidden | NoSymLinks\<close> and the sorting \<open>QDir::Time\<close>: the regular files of the
  directory whose name the filter matches, most recently modified first, files of equal
  time by name. The wildcard matcher of Qt is the parameter \<open>nameMatch\<close> (filter, then
  name).
\<close>

definition sort_time_key :: "string \<times> regular_file \<Rightarrow> int \<times> nat list" where
  "sort_time_key e = (- int (mtime (snd e)), map of_char (fileName (fst e)))"

definition entryInfoList ::
  "(string \<Rightarrow> string \<Rightarrow> bool) \<Rightarrow> string \<Rightarrow> string \<Rightarrow> filesystem \<Rightarrow> (string \<times> regular_file) list" where
  "entryInfoList nameMatch dir nameFilter fsys =
     (if QDir_exists fsys dir
      then sort_key sort_time_key
             (filter (\<lambda>e. dirPath (fst e) = dir \<and> nameMatch nameFilter (fileName (fst e)))
                (fs_files fsys))
      else [])"

text \<open>
  A wildcard matcher with \<open>*\<close> and \<open>?\<close>, used where a concrete matcher is needed to run
  the model. The theorems hold for every matcher.
\<close>

fun wildcardMatch :: "string \<Rightarrow> string \<Rightarrow> bool" where
  "wildcardMatch [] n = (n = [])"
| "wildcardMatch (p # ps) [] = (p = CHR ''*'' \<and> wildcardMatch ps [])"
| "wildcardMatch (p # ps) (c # cs) =
     (if p = CHR ''*'' then wildcardMatch ps (c # cs) \<or> wildcardMatch (p # ps) cs
      else (p = CHR ''?'' \<or> p = c) \<and> wildcardMatch ps cs)"

section \<open>The wallet engine and the adapter's state\<close>

text \<open>
  The engine (\<open>IWalletLegacy\<close>, \<open>CryptoNote::importLegacyKeys\<close>) is not part of the
  adapter. A call into it either returns or throws \<open>std::system_error\<close> with an error
  code; the legacy importer can also throw a plain \<open>std::runtime_error\<close>. A wallet object
  is the record of the answers the engine gives to the adapter's calls.
\<close>

datatype 'a engine_result = Returns 'a | Throws int

record wallet =
  w_getAddress :: "string engine_result"
  w_actualBalance :: "64 word engine_result"
  w_pendingBalance :: "64 word engine_result"
  w_initAndLoad :: "unit engine_result"
  w_initAndGenerate :: "unit engine_result"
  w_save :: "unit engine_result"

datatype import_result = Imported | ImportSystemError int | ImportRuntimeError

text \<open>What the surroundings answer during one call of the adapter.\<close>

record env =
  env_nameMatch :: "string \<Rightarrow> string \<Rightarrow> bool"
  env_currentDateTime :: QDateTime
  env_createWallet :: wallet
  env_importLegacyKeys :: import_result

datatype signal =
    walletStateChangedSignal string
  | openWalletWithPasswordSignal bool
  | walletInitCompletedSignal int
  | walletSaveCompletedSignal int
  | walletTransactionCreatedSignal "64 word"
  | walletActualBalanceUpdatedSignal "64 word"
  | walletPendingBalanceUpdatedSignal "64 word"
  | updateWalletAddressSignal string
  | reloadWalletTransactionsSignal
  | updateBlockStatusTextWithDelaySignal

text \<open>
  The observable effects, in the order in which they happen: the calls on \<open>m_mutex\<close>, the
  calls on the stream \<open>m_file\<close> (an open attempt with its path and its read-only flag) and
  the signals emitted.
\<close>

datatype event = MutexLock | MutexUnlock | FileOpen string bool | FileClose | Emit signal

text \<open>
  How a call can end without returning: a failed \<open>Q_ASSERT\<close> (the model is the build in
  which assertions are checked), \<open>Q_CHECK_PTR\<close> on a null pointer, a null \<open>m_wallet\<close>
  dereferenced, and an engine exception that no handler of the adapter catches.
\<close>

datatype failure = AssertFailed | BadAlloc | NullDereference | UncaughtSystemError int

text \<open>
  The adapter's members, the three settings of \<open>Settings::instance()\<close> that it reads and
  writes, the file system and the log of effects. \<open>m_file\<close> is the path of the open stream,
  \<open>None\<close> when the stream is closed; \<open>m_wallet = None\<close> is the null pointer.
\<close>

record adapter =
  m_wallet :: "wallet option"
  m_mutex :: bool
  m_file :: "string option"
  m_isBackupInProgress :: bool
  m_isSynchronized :: bool
  m_lastWalletTransactionId :: "64 word"
  walletFile :: string
  dataDir :: string
  encrypted :: bool
  fs :: filesystem
  events :: "event list"

definition quint64_max :: "64 word" where
  "quint64_max = - 1"

definition emit :: "signal \<Rightarrow> adapter \<Rightarrow> adapter" where
  "emit sg s = s\<lparr>events := events s @ [Emit sg]\<rparr>"

section \<open>WalletAdapter.cpp\<close>

subsection \<open>Queries\<close>

definition getAddress :: "adapter \<Rightarrow> string" where
  "getAddress s =
     (case m_wallet s of
        None \<Rightarrow> []
      | Some w \<Rightarrow> (case w_getAddress w of Returns a \<Rightarrow> a | Throws c \<Rightarrow> []))"

definition getActualBalance :: "adapter \<Rightarrow> 64 word" where
  "getActualBalance s =
     (case m_wallet s of
        None \<Rightarrow> 0
      | Some w \<Rightarrow> (case w_actualBalance w of Returns b \<Rightarrow> b | Throws c \<Rightarrow> 0))"

definition getPendingBalance :: "adapter \<Rightarrow> 64 word" where
  "getPendingBalance s =
     (case m_wallet s of
        None \<Rightarrow> 0
      | Some w \<Rightarrow> (case w_pendingBalance w of Returns b \<Rightarrow> b | Throws c \<Rightarrow> 0))"

definition isOpen :: "adapter \<Rightarrow> bool" where
  "isOpen s \<longleftrightarrow> m_wallet s \<noteq> None"

subsection \<open>The lock and the stream\<close>

text \<open>
  \<open>m_mutex.lock()\<close> returns when the mutex is the caller's; the wait for another holder
  is not represented, and \<open>m_mutex\<close> records whether the mutex is held after the call.
\<close>

definition lock :: "adapter \<Rightarrow> adapter" where
  "lock s = s\<lparr>m_mutex := True, events := events s @ [MutexLock]\<rparr>"

definition unlock :: "adapter \<Rightarrow> adapter" where
  "unlock s = s\<lparr>m_mutex := False, events := events s @ [MutexUnlock]\<rparr>"

text \<open>
  \<open>m_file.open(path, binary | (readOnly ? in : out | trunc))\<close>. On a stream that is open
  already the call fails and the stream stays open. Reading needs a regular file; writing
  creates the file or empties it, in a directory that exists. Whether a directory can be
  opened for reading depends on the C++ library (it can on Linux, it cannot on Windows);
  here that open fails. The results below about \<open>openFile\<close> are stated for both outcomes
  of the open and do not depend on this choice.
\<close>

definition fstream_open :: "string \<Rightarrow> bool \<Rightarrow> adapter \<Rightarrow> adapter" where
  "fstream_open path readOnly s =
     (let s1 = s\<lparr>events := events s @ [FileOpen path readOnly]\<rparr> in
      if m_file s1 \<noteq> None then s1
      else if readOnly then
        (if lookup_file (fs s1) path \<noteq> None then s1\<lparr>m_file := Some path\<rparr> else s1)
      else if QDir_exists (fs s1) path \<or> \<not> QDir_exists (fs s1) (dirPath path) then s1
      else s1\<lparr>m_file := Some path,
              fs := (fs s1)\<lparr>fs_files :=
                       filter (\<lambda>e. fst e \<noteq> path) (fs_files (fs s1))
                         @ [(path, \<lparr>content = [], mtime = fs_clock (fs s1)\<rparr>)]\<rparr>\<rparr>)"

definition openFile :: "string \<Rightarrow> bool \<Rightarrow> adapter \<Rightarrow> bool \<times> adapter" where
  "openFile path readOnly s =
     (let s1 = lock s;
          s2 = fstream_open path readOnly s1;
          s3 = (if m_file s2 = None then unlock s2 else s2)
      in (m_file s3 \<noteq> None, s3))"

definition closeFile :: "adapter \<Rightarrow> adapter" where
  "closeFile s = unlock (s\<lparr>m_file := None, events := events s @ [FileClose]\<rparr>)"

definition renameFile :: "string \<Rightarrow> string \<Rightarrow> adapter \<Rightarrow> failure + adapter" where
  "renameFile oldName newName s =
     (if \<not> QFile_exists (fs s) oldName then Inl AssertFailed
      else Inr (s\<lparr>fs := QFile_rename oldName newName (QFile_remove newName (fs s))\<rparr>))"

subsection \<open>Transactions reported while synchronising\<close>

definition externalTransactionCreated :: "64 word \<Rightarrow> adapter \<Rightarrow> adapter" where
  "externalTransactionCreated transactionId s =
     (if \<not> m_isSynchronized s then s\<lparr>m_lastWalletTransactionId := transactionId\<rparr>
      else emit (walletTransactionCreatedSignal transactionId) s)"

definition notifyAboutLastTransaction :: "adapter \<Rightarrow> adapter" where
  "notifyAboutLastTransaction s =
     (if m_lastWalletTransactionId s \<noteq> quint64_max
      then (emit (walletTransactionCreatedSignal (m_lastWalletTransactionId s)) s)
             \<lparr>m_lastWalletTransactionId := quint64_max\<rparr>
      else s)"

subsection \<open>The backup taken on open\<close>

definition backupDir :: "string \<Rightarrow> string" where
  "backupDir dir = filePath dir ''backup''"

text \<open>Lines 212 to 215: where the copy goes.\<close>

definition backupOnOpen_destination :: "string \<Rightarrow> string \<Rightarrow> QDateTime \<Rightarrow> string" where
  "backupOnOpen_destination wfile dir now =
     (let destination = filePath (backupDir dir) (fileName wfile);
          dateTimeStr = toString_backup now
      in replace_at destination (lastIndexOf destination ''.wallet'') 7
           (dateTimeStr @ ''.wallet''))"

text \<open>Lines 208 to 221: the directory is made when it is missing, then the copy.\<close>

definition backupOnOpen_copy :: "string \<Rightarrow> string \<Rightarrow> QDateTime \<Rightarrow> filesystem \<Rightarrow> filesystem" where
  "backupOnOpen_copy wfile dir now fsys =
     (let fs1 = (if \<not> QDir_exists fsys (backupDir dir) then QDir_mkdir (backupDir dir) fsys
                 else fsys);
          destination = backupOnOpen_destination wfile dir now;
          fs2 = (if QFile_exists fs1 destination then QFile_remove destination fs1 else fs1)
      in QFile_copy wfile destination fs2)"

text \<open>
  Lines 223 to 241: the scan of the backup directory and the loop over its result. The
  counter is a \<open>nat\<close>: it stays far below the range of \<open>int\<close>.
\<close>

definition backupOnOpen_scan ::
  "(string \<Rightarrow> string \<Rightarrow> bool) \<Rightarrow> string \<Rightarrow> string \<Rightarrow> filesystem \<Rightarrow> (string \<times> regular_file) list" where
  "backupOnOpen_scan nameMatch wfile dir fsys =
     (let walletFileName = fileName wfile;
          walletName = section0 walletFileName
      in entryInfoList nameMatch (backupDir dir) (walletName @ ''*.wallet'') fsys)"

fun backupOnOpen_loop :: "(string \<times> regular_file) list \<Rightarrow> nat \<Rightarrow> filesystem \<Rightarrow> filesystem" where
  "backupOnOpen_loop [] counter fsys = fsys"
| "backupOnOpen_loop (fileInfo # rest) counter fsys =
     backupOnOpen_loop rest (counter + 1)
       (if counter + 1 > 10 then QFile_remove (fst fileInfo) fsys else fsys)"

definition backupOnOpen_prune ::
  "(string \<Rightarrow> string \<Rightarrow> bool) \<Rightarrow> string \<Rightarrow> string \<Rightarrow> filesystem \<Rightarrow> filesystem" where
  "backupOnOpen_prune nameMatch wfile dir fsys =
     backupOnOpen_loop (backupOnOpen_scan nameMatch wfile dir fsys) 0 fsys"

definition backupOnOpen :: "env \<Rightarrow> adapter \<Rightarrow> adapter" where
  "backupOnOpen e s =
     s\<lparr>fs := backupOnOpen_prune (env_nameMatch e) (walletFile s) (dataDir s)
               (backupOnOpen_copy (walletFile s) (dataDir s) (env_currentDateTime e) (fs s))\<rparr>"

subsection \<open>Saving\<close>

text \<open>
  \<open>save(file, details, cache)\<close>; the result is \<open>Inl\<close> when \<open>Q_CHECK_PTR(m_wallet)\<close> fails.
  The engine writes through the stream after the call has returned and reports the end
  through \<open>saveCompleted\<close>.
\<close>

definition save_file :: "string \<Rightarrow> bool \<Rightarrow> bool \<Rightarrow> adapter \<Rightarrow> failure + bool \<times> adapter" where
  "save_file path details cache s =
     (case m_wallet s of
        None \<Rightarrow> Inl BadAlloc
      | Some w \<Rightarrow>
          (let (opened, s1) = openFile path False s in
           if opened then
             (case w_save w of
                Throws c \<Rightarrow> Inr (False, closeFile s1)
              | Returns u \<Rightarrow> Inr (True, emit (walletStateChangedSignal ''Saving data'') s1))
           else Inr (False, s1)))"

definition save :: "bool \<Rightarrow> bool \<Rightarrow> adapter \<Rightarrow> failure + bool \<times> adapter" where
  "save details cache s = save_file (walletFile s @ ''.temp'') details cache s"

definition backup :: "string \<Rightarrow> adapter \<Rightarrow> failure + adapter" where
  "backup path s =
     (case save_file (if endsWith path ''.wallet'' then path else path @ ''.wallet'') True False s of
        Inl f \<Rightarrow> Inl f
      | Inr (saved, s1) \<Rightarrow> Inr (if saved then s1\<lparr>m_isBackupInProgress := True\<rparr> else s1))"

text \<open>\<open>saveCompleted(error)\<close>, with the value of the error code (\<open>0\<close> is success).\<close>

definition saveCompleted :: "int \<Rightarrow> adapter \<Rightarrow> failure + adapter" where
  "saveCompleted error s =
     (if error = 0 \<and> \<not> m_isBackupInProgress s then
        (case renameFile (walletFile s @ ''.temp'') (walletFile s) (closeFile s) of
           Inl f \<Rightarrow> Inl f
         | Inr s1 \<Rightarrow>
             Inr (emit (walletSaveCompletedSignal error)
                   (emit updateBlockStatusTextWithDelaySignal
                     (emit (walletStateChangedSignal ''Ready'') s1))))
      else if m_isBackupInProgress s then
        Inr (emit (walletSaveCompletedSignal error)
              (closeFile (s\<lparr>m_isBackupInProgress := False\<rparr>)))
      else Inr (emit (walletSaveCompletedSignal error) (closeFile s)))"

subsection \<open>Opening\<close>

text \<open>
  The error code \<open>CryptoNote::error::WRONG_PASSWORD\<close> is declared in the engine's headers;
  it is the parameter \<open>wrong_password\<close> of the functions that compare against it. As a
  \<open>case\<close> label beside \<open>case 0\<close> it differs from \<open>0\<close>.
\<close>

definition importLegacyWallet :: "int \<Rightarrow> env \<Rightarrow> string \<Rightarrow> adapter \<Rightarrow> bool \<times> adapter" where
  "importLegacyWallet wrong_password e password s =
     (let keysFile = walletFile s;
          s1 = s\<lparr>encrypted := (password \<noteq> [])\<rparr>;
          walletPath = replace_at keysFile (lastIndexOf keysFile ''.keys'') 5 ''.wallet'';
          (opened, s2) = openFile walletPath False s1
      in if \<not> opened then (False, s2\<lparr>m_wallet := None\<rparr>)
         else
           (case env_importLegacyKeys e of
              Imported \<Rightarrow> (True, (closeFile s2)\<lparr>walletFile := walletPath\<rparr>)
            | ImportSystemError c \<Rightarrow>
                (let s3 = closeFile s2;
                     s4 = (if c = wrong_password
                           then emit (openWalletWithPasswordSignal (password \<noteq> []))
                                  (s3\<lparr>encrypted := True\<rparr>)
                           else s3)
                 in (False, s4\<lparr>m_wallet := None\<rparr>))
            | ImportRuntimeError \<Rightarrow> (False, (closeFile s2)\<lparr>m_wallet := None\<rparr>)))"

text \<open>
  \<open>open(password)\<close>. The engine loads the file after the call has returned and reports
  the end through \<open>initCompleted\<close>. \<open>openWallet_load\<close> is lines 102 to 110, the part that
  follows the backup and the legacy import.
\<close>

definition openWallet_load :: "string \<Rightarrow> adapter \<Rightarrow> failure + adapter" where
  "openWallet_load password s =
     (let (opened, s1) = openFile (walletFile s) True s in
      if opened then
        (case m_wallet s1 of
           None \<Rightarrow> Inl NullDereference
         | Some w \<Rightarrow>
             (case w_initAndLoad w of
                Throws c \<Rightarrow> Inr ((closeFile s1)\<lparr>m_wallet := None\<rparr>)
              | Returns u \<Rightarrow> Inr s1))
      else Inr s1)"

definition openWallet :: "int \<Rightarrow> env \<Rightarrow> string \<Rightarrow> adapter \<Rightarrow> failure + adapter" where
  "openWallet wrong_password e password s =
     (if m_wallet s \<noteq> None then Inl AssertFailed
      else
        (let s1 = emit (walletStateChangedSignal ''Opening wallet'')
                    (s\<lparr>encrypted := (password \<noteq> [])\<rparr>);
             s2 = s1\<lparr>m_wallet := Some (env_createWallet e)\<rparr>
         in if QFile_exists (fs s2) (walletFile s2) then
              (let s3 = backupOnOpen e s2 in
               if endsWith (walletFile s3) ''.keys'' then
                 (let (imported, s4) = importLegacyWallet wrong_password e password s3 in
                  if \<not> imported then Inr s4 else openWallet_load password s4)
               else openWallet_load password s3)
            else
              (let s3 = s2\<lparr>encrypted := False\<rparr> in
               case w_initAndGenerate (env_createWallet e) of
                 Throws c \<Rightarrow> Inr (s3\<lparr>m_wallet := None\<rparr>)
               | Returns u \<Rightarrow> Inr s3)))"

definition initCompleted :: "int \<Rightarrow> adapter \<Rightarrow> adapter" where
  "initCompleted error s =
     emit (walletInitCompletedSignal error) (if m_file s \<noteq> None then closeFile s else s)"

text \<open>
  \<open>onWalletInitCompleted(error, text)\<close>, the slot that the queued
  \<open>walletInitCompletedSignal\<close> runs. The timer started in the first case is not modelled.
\<close>

definition onWalletInitCompleted :: "int \<Rightarrow> int \<Rightarrow> adapter \<Rightarrow> failure + adapter" where
  "onWalletInitCompleted wrong_password error s =
     (if error = 0 then
        (case m_wallet s of
           None \<Rightarrow> Inl NullDereference
         | Some w \<Rightarrow>
             (case w_actualBalance w of
                Throws c \<Rightarrow> Inl (UncaughtSystemError c)
              | Returns actual \<Rightarrow>
                  (case w_pendingBalance w of
                     Throws c \<Rightarrow> Inl (UncaughtSystemError c)
                   | Returns pending \<Rightarrow>
                       (case w_getAddress w of
                          Throws c \<Rightarrow> Inl (UncaughtSystemError c)
                        | Returns address \<Rightarrow>
                            (let s1 = emit (walletStateChangedSignal ''Ready'')
                                       (emit reloadWalletTransactionsSignal
                                         (emit (updateWalletAddressSignal address)
                                           (emit (walletPendingBalanceUpdatedSignal pending)
                                             (emit (walletActualBalanceUpdatedSignal actual) s))))
                             in if \<not> QFile_exists (fs s1) (walletFile s1) then
                                  (case save True True s1 of
                                     Inl f \<Rightarrow> Inl f
                                   | Inr (saved, s2) \<Rightarrow> Inr s2)
                                else Inr s1)))))
      else if error = wrong_password then
        Inr ((emit (openWalletWithPasswordSignal (encrypted s)) s)
               \<lparr>encrypted := True, m_wallet := None\<rparr>)
      else Inr (s\<lparr>m_wallet := None\<rparr>))"

subsection \<open>Reading the log\<close>

text \<open>Acquisitions of \<open>m_mutex\<close> minus releases, over a log of effects.\<close>

definition lock_depth :: "event list \<Rightarrow> int" where
  "lock_depth evs = int (count_list evs MutexLock) - int (count_list evs MutexUnlock)"

section \<open>Example states\<close>

text \<open>Concrete inputs on which the theorems below are instantiated.\<close>

definition ex_wallet :: wallet where
  "ex_wallet = \<lparr>w_getAddress = Returns ''addr'', w_actualBalance = Returns 7,
     w_pendingBalance = Returns 0, w_initAndLoad = Returns (), w_initAndGenerate = Returns (),
     w_save = Returns ()\<rparr>"

text \<open>A wallet object on which every engine call throws.\<close>

definition ex_failing_wallet :: wallet where
  "ex_failing_wallet = \<lparr>w_getAddress = Throws 1, w_actualBalance = Throws 1,
     w_pendingBalance = Throws 1, w_initAndLoad = Throws 3, w_initAndGenerate = Throws 3,
     w_save = Throws 3\<rparr>"

definition ex_now :: QDateTime where
  "ex_now = \<lparr>dt_year = 2017, dt_month = 3, dt_day = 9, dt_hour = 14, dt_minute = 5, dt_second = 30\<rparr>"

definition ex_env :: env where
  "ex_env = \<lparr>env_nameMatch = wildcardMatch, env_currentDateTime = ex_now,
     env_createWallet = ex_wallet, env_importLegacyKeys = Imported\<rparr>"

definition ex_backup :: "nat \<Rightarrow> string \<times> regular_file" where
  "ex_backup n = (''/d/backup/my.0'' @ [digit n] @ ''-01-2017-10-00.wallet'',
                  \<lparr>content = ''old'', mtime = n\<rparr>)"

definition ex_fs :: filesystem where
  "ex_fs = \<lparr>fs_files =
      [(''/w/my.wallet'', \<lparr>content = ''keys'', mtime = 40\<rparr>),
       (''/d/backup/other.01-01-2017-10-00.wallet'', \<lparr>content = ''x'', mtime = 3\<rparr>)]
      @ map ex_backup [1, 2, 3, 4, 5, 6, 7, 8, 9]
      @ [(''/d/backup/my.10-01-2017-10-00.wallet'', \<lparr>content = ''old'', mtime = 10\<rparr>),
         (''/d/backup/my.11-01-2017-10-00.wallet'', \<lparr>content = ''old'', mtime = 11\<rparr>)],
     fs_dirs = ['''', ''/d'', ''/d/backup'', ''/w''], fs_clock = 50\<rparr>"

definition ex_adapter :: adapter where
  "ex_adapter = \<lparr>m_wallet = None, m_mutex = False, m_file = None, m_isBackupInProgress = False,
     m_isSynchronized = False, m_lastWalletTransactionId = quint64_max,
     walletFile = ''/w/my.wallet'', dataDir = ''/d'', encrypted = False, fs = ex_fs, events = []\<rparr>"

text \<open>A save in progress: the engine has written the temporary file.\<close>

definition ex_saving :: adapter where
  "ex_saving = ex_adapter\<lparr>m_wallet := Some ex_wallet, m_mutex := True,
     m_file := Some ''/w/my.wallet.temp'',
     events := [MutexLock, FileOpen ''/w/my.wallet.temp'' False,
                Emit (walletStateChangedSignal ''Saving data'')],
     fs := \<lparr>fs_files = [(''/w/my.wallet'', \<lparr>content = ''old'', mtime = 40\<rparr>),
                         (''/w/my.wallet.temp'', \<lparr>content = ''new'', mtime = 50\<rparr>)],
             fs_dirs = ['''', ''/d'', ''/w''], fs_clock = 50\<rparr>\<rparr>"

text \<open>An open wallet, a wallet whose engine calls throw, and a first open with no backup yet.\<close>

definition ex_loaded :: adapter where
  "ex_loaded = ex_adapter\<lparr>m_wallet := Some ex_wallet\<rparr>"

definition ex_failing :: adapter where
  "ex_failing = ex_adapter\<lparr>m_wallet := Some ex_failing_wallet\<rparr>"

definition ex_fresh :: adapter where
  "ex_fresh = ex_adapter\<lparr>fs := \<lparr>fs_files = [(''/w/my.wallet'', \<lparr>content = ''keys'', mtime = 40\<rparr>)],
                                  fs_dirs = ['''', ''/d'', ''/w''], fs_clock = 50\<rparr>\<rparr>"

text \<open>
  A second open in the same minute, after the wallet file has changed, and a legacy
  \<open>.keys\<close> wallet.
\<close>

definition ex_later :: QDateTime where
  "ex_later = \<lparr>dt_year = 2017, dt_month = 3, dt_day = 9, dt_hour = 14, dt_minute = 5, dt_second = 55\<rparr>"

definition ex_reopened :: adapter where
  "ex_reopened = ex_adapter\<lparr>fs :=
     \<lparr>fs_files = [(''/w/my.wallet'', \<lparr>content = ''keys2'', mtime = 60\<rparr>),
                  (''/d/backup/my.09-03-2017-14-05.wallet'', \<lparr>content = ''keys'', mtime = 50\<rparr>)],
      fs_dirs = ['''', ''/d'', ''/w'', ''/d/backup''], fs_clock = 70\<rparr>\<rparr>"

definition ex_legacy :: adapter where
  "ex_legacy = ex_adapter\<lparr>m_wallet := Some ex_wallet, walletFile := ''/w/my.keys'', fs :=
     \<lparr>fs_files = [(''/w/my.keys'', \<lparr>content = ''legacy'', mtime = 40\<rparr>)],
      fs_dirs = ['''', ''/d'', ''/w'', ''/d/backup''], fs_clock = 50\<rparr>\<rparr>"

definition ex_wrong_password_env :: env where
  "ex_wrong_password_env = ex_env\<lparr>env_importLegacyKeys := ImportSystemError 4\<rparr>"

text \<open>
  An engine whose \<open>initAndLoad\<close> throws \<open>WRONG_PASSWORD\<close> (here 4) at once, and the second
  open of the same minute.
\<close>

definition ex_rejecting_env :: env where
  "ex_rejecting_env = ex_env\<lparr>env_createWallet := ex_wallet\<lparr>w_initAndLoad := Throws 4\<rparr>\<rparr>"

definition ex_later_env :: env where
  "ex_later_env = ex_env\<lparr>env_currentDateTime := ex_later\<rparr>"

section \<open>Retention of backups\<close>

lemma backupOnOpen_loop_files:
  "fs_files (backupOnOpen_loop L c fsys) =
     filter (\<lambda>e. fst e \<notin> fst ` set (drop (10 - c) L)) (fs_files fsys)"
proof (induction L arbitrary: c fsys)
  case Nil
  then show ?case by simp
next
  case (Cons x L)
  show ?case
  proof (cases "c + 1 > 10")
    case True
    then have d: "10 - c = 0" "10 - (c + 1) = 0" by simp_all
    show ?thesis
      using True by (simp add: Cons.IH d QFile_remove_def)
  next
    case False
    then have "10 - c = Suc (10 - (c + 1))" by simp
    then show ?thesis using False by (simp add: Cons.IH)
  qed
qed

lemma backupOnOpen_loop_dirs:
  "fs_dirs (backupOnOpen_loop L c fsys) = fs_dirs fsys \<and> fs_clock (backupOnOpen_loop L c fsys) = fs_clock fsys"
  by (induction L arbitrary: c fsys) (simp_all add: QFile_remove_def)

lemma filter_not_in_second:
  "f ` set a \<inter> f ` set b = {} \<Longrightarrow> filter (\<lambda>e. f e \<notin> f ` set b) (a @ b) = a"
  by (auto simp: filter_empty_conv intro!: filter_True)

lemma filter_drop_distinct:
  assumes "distinct (map f xs)"
  shows "filter (\<lambda>e. f e \<notin> f ` set (drop n xs)) xs = take n xs"
proof -
  have "distinct (map f (take n xs) @ map f (drop n xs))"
    using assms by (metis append_take_drop_id map_append)
  then have "f ` set (take n xs) \<inter> f ` set (drop n xs) = {}"
    by simp
  from filter_not_in_second [OF this] show ?thesis by simp
qed

lemma map_of_filter_fst:
  "map_of (filter (\<lambda>e. fst e \<notin> R) xs) p = (if p \<in> R then None else map_of xs p)"
  by (induction xs) auto

lemma distinct_QFile_remove:
  "distinct (map fst (fs_files fsys)) \<Longrightarrow> distinct (map fst (fs_files (QFile_remove p fsys)))"
  by (simp add: QFile_remove_def distinct_map_filter)

lemma distinct_QFile_copy:
  "distinct (map fst (fs_files fsys)) \<Longrightarrow> distinct (map fst (fs_files (QFile_copy src dst fsys)))"
  by (auto simp: QFile_copy_def QFile_exists_def lookup_file_def map_of_eq_None_iff
           split: option.splits)

lemma fs_files_QDir_mkdir: "fs_files (QDir_mkdir p fsys) = fs_files fsys"
  by (simp add: QDir_mkdir_def)

lemma distinct_backupOnOpen_copy:
  "distinct (map fst (fs_files fsys)) \<Longrightarrow>
   distinct (map fst (fs_files (backupOnOpen_copy wfile dir now fsys)))"
  by (simp add: backupOnOpen_copy_def Let_def distinct_QFile_copy distinct_QFile_remove
        fs_files_QDir_mkdir)

lemma entryInfoList_filter_files:
  "entryInfoList m d pat (fsys\<lparr>fs_files := filter P (fs_files fsys)\<rparr>) =
     filter P (entryInfoList m d pat fsys)"
  by (simp add: entryInfoList_def QDir_exists_def filter_sort conj_commute)

lemma distinct_entryInfoList:
  "distinct (map fst (fs_files fsys)) \<Longrightarrow> distinct (map fst (entryInfoList m d pat fsys))"
  by (auto simp: entryInfoList_def distinct_map intro: inj_on_subset distinct_filter)

lemma sorted_entryInfoList:
  "sorted (map sort_time_key (entryInfoList m d pat fsys))"
  by (simp add: entryInfoList_def)

lemma newest_first:
  assumes "sorted (map sort_time_key xs)" "k \<in> set (take n xs)" "old \<in> set (drop n xs)"
  shows "mtime (snd old) \<le> mtime (snd k)"
proof -
  have "sorted (map sort_time_key (take n xs) @ map sort_time_key (drop n xs))"
    using assms(1) by (metis append_take_drop_id map_append)
  then have "sort_time_key k \<le> sort_time_key old"
    using assms(2,3) by (auto simp: sorted_append)
  then show ?thesis by (auto simp: sort_time_key_def)
qed

text \<open>
  C1. After \<open>backupOnOpen\<close> the backup directory holds at most 10 files that the filter
  \<open><walletName>*.wallet\<close> matches. The scan made after the copy lists them newest first;
  what the call leaves is the first 10 of that list. Every later entry is deleted and is
  no newer than any entry kept, and no other file is touched by the loop. The file system
  is any in which no path is listed twice.
\<close>

theorem backupOnOpen_retention:
  assumes "distinct (map fst (fs_files (fs s)))"
  shows "let copied = backupOnOpen_copy (walletFile s) (dataDir s) (env_currentDateTime e) (fs s);
             scanned = backupOnOpen_scan (env_nameMatch e) (walletFile s) (dataDir s) copied;
             after = fs (backupOnOpen e s)
         in backupOnOpen_scan (env_nameMatch e) (walletFile s) (dataDir s) after = take 10 scanned
            \<and> length (backupOnOpen_scan (env_nameMatch e) (walletFile s) (dataDir s) after) \<le> 10
            \<and> (\<forall>old \<in> set (drop 10 scanned).
                  lookup_file after (fst old) = None
                  \<and> (\<forall>kept \<in> set (take 10 scanned). mtime (snd old) \<le> mtime (snd kept)))
            \<and> (\<forall>p. p \<notin> fst ` set (drop 10 scanned) \<longrightarrow> lookup_file after p = lookup_file copied p)"
proof -
  define copied where
    "copied = backupOnOpen_copy (walletFile s) (dataDir s) (env_currentDateTime e) (fs s)"
  define pat where "pat = section0 (fileName (walletFile s)) @ ''*.wallet''"
  define scanned where
    "scanned = entryInfoList (env_nameMatch e) (backupDir (dataDir s)) pat copied"
  define R where "R = fst ` set (drop 10 scanned)"
  define after where "after = backupOnOpen_loop scanned 0 copied"
  have after_files: "fs_files after = filter (\<lambda>e. fst e \<notin> R) (fs_files copied)"
    by (simp add: after_def R_def backupOnOpen_loop_files)
  have after_eq: "after = copied\<lparr>fs_files := filter (\<lambda>e. fst e \<notin> R) (fs_files copied)\<rparr>"
    using after_files backupOnOpen_loop_dirs [of scanned 0 copied]
    by (simp add: after_def)
  have dist: "distinct (map fst scanned)"
    unfolding scanned_def copied_def
    by (intro distinct_entryInfoList distinct_backupOnOpen_copy assms)
  have scan_after: "entryInfoList (env_nameMatch e) (backupDir (dataDir s)) pat after = take 10 scanned"
    using filter_drop_distinct [OF dist, of 10]
    by (simp add: after_eq entryInfoList_filter_files R_def flip: scanned_def)
  have gone: "lookup_file after p = (if p \<in> R then None else lookup_file copied p)" for p
    by (simp add: lookup_file_def after_files map_of_filter_fst)
  have sorted: "sorted (map sort_time_key scanned)"
    by (simp add: scanned_def sorted_entryInfoList)
  have older: "mtime (snd old) \<le> mtime (snd kept)"
    if "old \<in> set (drop 10 scanned)" "kept \<in> set (take 10 scanned)" for old kept
    using newest_first [OF sorted that(2) that(1)] .
  have fs_after: "fs (backupOnOpen e s) = after"
    by (simp add: backupOnOpen_def backupOnOpen_prune_def backupOnOpen_scan_def Let_def
          after_def scanned_def copied_def pat_def)
  have scan_copied: "backupOnOpen_scan (env_nameMatch e) (walletFile s) (dataDir s) copied = scanned"
    by (simp add: backupOnOpen_scan_def Let_def scanned_def pat_def)
  have scan_after': "backupOnOpen_scan (env_nameMatch e) (walletFile s) (dataDir s) after = take 10 scanned"
    using scan_after by (simp add: backupOnOpen_scan_def Let_def pat_def)
  show ?thesis
    unfolding Let_def fs_after scan_after' copied_def [symmetric] scan_copied
    using gone older by (auto simp: R_def)
qed

theorem backupOnOpen_retention_witness:
  "distinct (map fst (fs_files (fs ex_adapter)))
   \<and> length (backupOnOpen_scan wildcardMatch ''/w/my.wallet'' ''/d''
               (backupOnOpen_copy ''/w/my.wallet'' ''/d'' ex_now ex_fs)) = 12
   \<and> drop 10 (backupOnOpen_scan wildcardMatch ''/w/my.wallet'' ''/d''
                (backupOnOpen_copy ''/w/my.wallet'' ''/d'' ex_now ex_fs))
       = [(''/d/backup/my.02-01-2017-10-00.wallet'', \<lparr>content = ''old'', mtime = 2\<rparr>),
          (''/d/backup/my.01-01-2017-10-00.wallet'', \<lparr>content = ''old'', mtime = 1\<rparr>)]
   \<and> length (backupOnOpen_scan wildcardMatch ''/w/my.wallet'' ''/d''
               (fs (backupOnOpen ex_env ex_adapter))) = 10
   \<and> lookup_file (fs (backupOnOpen ex_env ex_adapter)) ''/d/backup/my.02-01-2017-10-00.wallet''
       = None
   \<and> lookup_file (fs (backupOnOpen ex_env ex_adapter)) ''/d/backup/my.01-01-2017-10-00.wallet''
       = None"
proof -
  have d: "distinct (map fst (fs_files (fs ex_adapter)))"
    by (simp add: ex_adapter_def ex_fs_def ex_backup_def digit_def)
  have h: "walletFile ex_adapter = ''/w/my.wallet''" "dataDir ex_adapter = ''/d''"
    "fs ex_adapter = ex_fs" "env_nameMatch ex_env = wildcardMatch"
    "env_currentDateTime ex_env = ex_now"
    by (simp_all add: ex_adapter_def ex_env_def)
  have n: "length (backupOnOpen_scan wildcardMatch ''/w/my.wallet'' ''/d''
               (backupOnOpen_copy ''/w/my.wallet'' ''/d'' ex_now ex_fs)) = 12"
    by (simp add: backupOnOpen_scan_def entryInfoList_def Let_def) code_simp
  have o: "drop 10 (backupOnOpen_scan wildcardMatch ''/w/my.wallet'' ''/d''
                (backupOnOpen_copy ''/w/my.wallet'' ''/d'' ex_now ex_fs))
       = [(''/d/backup/my.02-01-2017-10-00.wallet'', \<lparr>content = ''old'', mtime = 2\<rparr>),
          (''/d/backup/my.01-01-2017-10-00.wallet'', \<lparr>content = ''old'', mtime = 1\<rparr>)]"
    by code_simp
  show ?thesis
    using d n o backupOnOpen_retention [OF d, of ex_env]
    by (simp add: Let_def h)
qed

section \<open>Queries and notifications\<close>

text \<open>
  C9. \<open>getAddress\<close>, \<open>getActualBalance\<close> and \<open>getPendingBalance\<close> return a value in
  every state: the empty string or zero when no wallet is open (\<open>m_wallet\<close> is null) and
  when the engine call throws \<open>std::system_error\<close>, the engine's answer otherwise.
\<close>

theorem getters_total:
  "(m_wallet s = None \<longrightarrow> getAddress s = [] \<and> getActualBalance s = 0 \<and> getPendingBalance s = 0)
   \<and> (\<forall>w c. m_wallet s = Some w \<and> w_getAddress w = Throws c \<longrightarrow> getAddress s = [])
   \<and> (\<forall>w c. m_wallet s = Some w \<and> w_actualBalance w = Throws c \<longrightarrow> getActualBalance s = 0)
   \<and> (\<forall>w c. m_wallet s = Some w \<and> w_pendingBalance w = Throws c \<longrightarrow> getPendingBalance s = 0)
   \<and> (\<forall>w a. m_wallet s = Some w \<and> w_getAddress w = Returns a \<longrightarrow> getAddress s = a)
   \<and> (\<forall>w b. m_wallet s = Some w \<and> w_actualBalance w = Returns b \<longrightarrow> getActualBalance s = b)
   \<and> (\<forall>w b. m_wallet s = Some w \<and> w_pendingBalance w = Returns b \<longrightarrow> getPendingBalance s = b)"
  by (simp add: getAddress_def getActualBalance_def getPendingBalance_def)

theorem getters_total_witness:
  "m_wallet ex_adapter = None
   \<and> getAddress ex_adapter = [] \<and> getActualBalance ex_adapter = 0 \<and> getPendingBalance ex_adapter = 0
   \<and> m_wallet (ex_adapter\<lparr>m_wallet := Some ex_failing_wallet\<rparr>) = Some ex_failing_wallet
   \<and> w_getAddress ex_failing_wallet = Throws 1
   \<and> getAddress (ex_adapter\<lparr>m_wallet := Some ex_failing_wallet\<rparr>) = []
   \<and> getActualBalance (ex_adapter\<lparr>m_wallet := Some ex_failing_wallet\<rparr>) = 0
   \<and> getPendingBalance (ex_adapter\<lparr>m_wallet := Some ex_failing_wallet\<rparr>) = 0"
proof -
  have n: "m_wallet ex_adapter = None" by (simp add: ex_adapter_def)
  have t: "w_getAddress ex_failing_wallet = Throws 1" "w_actualBalance ex_failing_wallet = Throws 1"
    "w_pendingBalance ex_failing_wallet = Throws 1"
    by (simp_all add: ex_failing_wallet_def)
  show ?thesis
    using n t getters_total [of ex_adapter]
      getters_total [of "ex_adapter\<lparr>m_wallet := Some ex_failing_wallet\<rparr>"]
    by simp
qed

text \<open>
  C10. \<open>notifyAboutLastTransaction\<close> emits \<open>walletTransactionCreatedSignal\<close> once when the
  stored id is not the sentinel (the largest \<open>quint64\<close>) and resets the id to the sentinel;
  with the sentinel stored it does nothing. A second call in a row changes nothing and
  emits nothing.
\<close>

theorem notifyAboutLastTransaction_once:
  "(m_lastWalletTransactionId s \<noteq> quint64_max \<longrightarrow>
      events (notifyAboutLastTransaction s) =
        events s @ [Emit (walletTransactionCreatedSignal (m_lastWalletTransactionId s))]
      \<and> m_lastWalletTransactionId (notifyAboutLastTransaction s) = quint64_max)
   \<and> (m_lastWalletTransactionId s = quint64_max \<longrightarrow> notifyAboutLastTransaction s = s)
   \<and> notifyAboutLastTransaction (notifyAboutLastTransaction s) = notifyAboutLastTransaction s
   \<and> events (notifyAboutLastTransaction (notifyAboutLastTransaction s)) =
        events (notifyAboutLastTransaction s)"
  by (simp add: notifyAboutLastTransaction_def emit_def)

theorem notifyAboutLastTransaction_once_witness:
  "m_lastWalletTransactionId (externalTransactionCreated 5 ex_adapter) \<noteq> quint64_max
   \<and> events (notifyAboutLastTransaction (externalTransactionCreated 5 ex_adapter)) =
        [Emit (walletTransactionCreatedSignal 5)]
   \<and> m_lastWalletTransactionId (notifyAboutLastTransaction (externalTransactionCreated 5 ex_adapter))
        = quint64_max
   \<and> events (notifyAboutLastTransaction (notifyAboutLastTransaction
        (externalTransactionCreated 5 ex_adapter))) = [Emit (walletTransactionCreatedSignal 5)]"
proof -
  have r: "m_lastWalletTransactionId (externalTransactionCreated 5 ex_adapter) = 5"
    "events (externalTransactionCreated 5 ex_adapter) = []"
    by (simp_all add: externalTransactionCreated_def ex_adapter_def)
  have ne: "(5 :: 64 word) \<noteq> quint64_max" by (simp add: quint64_max_def)
  show ?thesis
    using r ne notifyAboutLastTransaction_once [of "externalTransactionCreated 5 ex_adapter"]
    by simp
qed

section \<open>The lock and the stream\<close>

lemma lock_depth_simps [simp]:
  "lock_depth [] = 0"
  "lock_depth (evs @ evs') = lock_depth evs + lock_depth evs'"
  "lock_depth (MutexLock # evs) = lock_depth evs + 1"
  "lock_depth (MutexUnlock # evs) = lock_depth evs - 1"
  "lock_depth (FileOpen p r # evs) = lock_depth evs"
  "lock_depth (FileClose # evs) = lock_depth evs"
  "lock_depth (Emit sg # evs) = lock_depth evs"
  by (simp_all add: lock_depth_def)

lemma openFile_fields [simp]:
  "m_wallet (snd (openFile p r s)) = m_wallet s"
  "walletFile (snd (openFile p r s)) = walletFile s"
  "dataDir (snd (openFile p r s)) = dataDir s"
  "encrypted (snd (openFile p r s)) = encrypted s"
  "m_isBackupInProgress (snd (openFile p r s)) = m_isBackupInProgress s"
  "m_isSynchronized (snd (openFile p r s)) = m_isSynchronized s"
  "m_lastWalletTransactionId (snd (openFile p r s)) = m_lastWalletTransactionId s"
  "fst (openFile p r s) = (m_file (snd (openFile p r s)) \<noteq> None)"
  by (simp_all add: openFile_def lock_def unlock_def fstream_open_def Let_def)

lemma openFile_opened:
  assumes "m_file s = None" "fst (openFile p r s)"
  shows "m_file (snd (openFile p r s)) = Some p"
    and "m_mutex (snd (openFile p r s))"
    and "events (snd (openFile p r s)) = events s @ [MutexLock, FileOpen p r]"
  using assms
  by (simp_all add: openFile_def lock_def unlock_def fstream_open_def Let_def split: if_splits)

lemma openFile_failed:
  assumes "m_file s = None" "\<not> fst (openFile p r s)"
  shows "snd (openFile p r s) =
           s\<lparr>m_mutex := False, events := events s @ [MutexLock, FileOpen p r, MutexUnlock]\<rparr>"
  using assms
  by (auto simp add: openFile_def lock_def unlock_def fstream_open_def Let_def split: if_splits)

lemma openFile_read_fs [simp]: "fs (snd (openFile p True s)) = fs s"
  by (simp add: openFile_def lock_def unlock_def fstream_open_def Let_def)

lemma closeFile_fields [simp]:
  "m_wallet (closeFile s) = m_wallet s"
  "walletFile (closeFile s) = walletFile s"
  "dataDir (closeFile s) = dataDir s"
  "encrypted (closeFile s) = encrypted s"
  "m_isBackupInProgress (closeFile s) = m_isBackupInProgress s"
  "m_isSynchronized (closeFile s) = m_isSynchronized s"
  "m_lastWalletTransactionId (closeFile s) = m_lastWalletTransactionId s"
  "fs (closeFile s) = fs s"
  "m_file (closeFile s) = None"
  "m_mutex (closeFile s) = False"
  "events (closeFile s) = events s @ [FileClose, MutexUnlock]"
  by (simp_all add: closeFile_def unlock_def)

lemma emit_fields [simp]:
  "m_wallet (emit sg s) = m_wallet s"
  "walletFile (emit sg s) = walletFile s"
  "dataDir (emit sg s) = dataDir s"
  "encrypted (emit sg s) = encrypted s"
  "m_isBackupInProgress (emit sg s) = m_isBackupInProgress s"
  "m_isSynchronized (emit sg s) = m_isSynchronized s"
  "m_lastWalletTransactionId (emit sg s) = m_lastWalletTransactionId s"
  "fs (emit sg s) = fs s"
  "m_file (emit sg s) = m_file s"
  "m_mutex (emit sg s) = m_mutex s"
  "events (emit sg s) = events s @ [Emit sg]"
  by (simp_all add: emit_def)

lemma openFile_balance:
  assumes "m_file s = None"
  shows "lock_depth (events (snd (openFile p r s))) =
           lock_depth (events s) + of_bool (fst (openFile p r s))"
proof (cases "fst (openFile p r s)")
  case True
  then show ?thesis using openFile_opened(3) [OF assms True] by simp
next
  case False
  then show ?thesis using openFile_failed [OF assms False] by simp
qed

lemma openFile_failed_file:
  "m_file s = None \<Longrightarrow> \<not> fst (openFile p r s) \<Longrightarrow> m_file (snd (openFile p r s)) = None"
  by simp

lemma importLegacyWallet_balance:
  assumes "m_file s = None"
  shows "lock_depth (events (snd (importLegacyWallet wp e password s))) = lock_depth (events s)
         \<and> m_file (snd (importLegacyWallet wp e password s)) = None"
proof -
  define s1 where "s1 = s\<lparr>encrypted := (password \<noteq> [])\<rparr>"
  define q where "q = replace_at (walletFile s) (lastIndexOf (walletFile s) ''.keys'') 5 ''.wallet''"
  have c: "m_file s1 = None" "events s1 = events s" using assms by (simp_all add: s1_def)
  show ?thesis
  proof (cases "fst (openFile q False s1)")
    case True
    from openFile_opened(3) [OF c(1) True] True show ?thesis
      by (simp add: importLegacyWallet_def Let_def split_beta s1_def [symmetric] q_def [symmetric] c
               split: import_result.split)
  next
    case False
    from openFile_failed [OF c(1) False] False show ?thesis
      by (simp add: importLegacyWallet_def Let_def split_beta s1_def [symmetric] q_def [symmetric] c)
  qed
qed

lemma backupOnOpen_fields [simp]:
  "m_wallet (backupOnOpen e s) = m_wallet s"
  "walletFile (backupOnOpen e s) = walletFile s"
  "dataDir (backupOnOpen e s) = dataDir s"
  "encrypted (backupOnOpen e s) = encrypted s"
  "m_isBackupInProgress (backupOnOpen e s) = m_isBackupInProgress s"
  "m_file (backupOnOpen e s) = m_file s"
  "m_mutex (backupOnOpen e s) = m_mutex s"
  "events (backupOnOpen e s) = events s"
  by (simp_all add: backupOnOpen_def)

lemma importLegacyWallet_imported:
  assumes "fst (importLegacyWallet wp e password s)"
  shows "m_wallet (snd (importLegacyWallet wp e password s)) = m_wallet s"
  using assms
  by (simp add: importLegacyWallet_def Let_def split_beta split: if_splits import_result.splits)

lemma importLegacyWallet_not_imported:
  assumes "\<not> fst (importLegacyWallet wp e password s)"
  shows "m_wallet (snd (importLegacyWallet wp e password s)) = None"
  using assms
  by (simp add: importLegacyWallet_def Let_def split_beta split: if_splits import_result.splits)

lemma openWallet_load_balance:
  assumes "m_file s = None" "m_wallet s = Some w"
  shows "case openWallet_load password s of
           Inl f \<Rightarrow> False
         | Inr s' \<Rightarrow>
             lock_depth (events s') = lock_depth (events s) + of_bool (m_file s' \<noteq> None)
             \<and> fs s' = fs s
             \<and> (\<forall>c. w_initAndLoad w = Throws c \<longrightarrow> m_file s' = None)"
proof (cases "fst (openFile (walletFile s) True s)")
  case True
  from openFile_opened [OF assms(1) True] True assms(2) show ?thesis
    by (simp add: openWallet_load_def split_beta split: engine_result.split)
next
  case False
  from openFile_failed [OF assms(1) False] False assms show ?thesis
    by (simp add: openWallet_load_def split_beta)
qed

lemma openWallet_unfold:
  assumes "m_wallet s = None"
  shows "openWallet wp e password s =
     (let s2 = (emit (walletStateChangedSignal ''Opening wallet'')
                  (s\<lparr>encrypted := (password \<noteq> [])\<rparr>))\<lparr>m_wallet := Some (env_createWallet e)\<rparr>;
          s3 = backupOnOpen e s2;
          r = importLegacyWallet wp e password s3
      in if QFile_exists (fs s) (walletFile s) then
           (if endsWith (walletFile s) ''.keys''
            then (if \<not> fst r then Inr (snd r) else openWallet_load password (snd r))
            else openWallet_load password s3)
         else
           (case w_initAndGenerate (env_createWallet e) of
              Throws c \<Rightarrow> Inr (s2\<lparr>encrypted := False, m_wallet := None\<rparr>)
            | Returns u \<Rightarrow> Inr (s2\<lparr>encrypted := False\<rparr>)))"
  using assms by (simp add: openWallet_def Let_def split_beta)

lemma openWallet_balance:
  assumes "m_file s = None" "m_wallet s = None"
  shows "case openWallet wp e password s of
           Inl f \<Rightarrow> False
         | Inr s' \<Rightarrow>
             lock_depth (events s') = lock_depth (events s) + of_bool (m_file s' \<noteq> None)
             \<and> (\<forall>c. w_initAndLoad (env_createWallet e) = Throws c \<longrightarrow> m_file s' = None)"
proof -
  define s2 where "s2 = (emit (walletStateChangedSignal ''Opening wallet'')
                    (s\<lparr>encrypted := (password \<noteq> [])\<rparr>))\<lparr>m_wallet := Some (env_createWallet e)\<rparr>"
  define s3 where "s3 = backupOnOpen e s2"
  define r where "r = importLegacyWallet wp e password s3"
  have s2: "m_file s2 = None" "lock_depth (events s2) = lock_depth (events s)"
    using assms by (simp_all add: s2_def)
  have s3: "m_file s3 = None" "m_wallet s3 = Some (env_createWallet e)"
    "lock_depth (events s3) = lock_depth (events s)"
    using assms by (simp_all add: s3_def s2_def)
  have b: "lock_depth (events (snd r)) = lock_depth (events s)" "m_file (snd r) = None"
    using importLegacyWallet_balance [OF s3(1), of wp e password] s3(3) by (simp_all add: r_def)
  have load3: "case openWallet_load password s3 of
           Inl f \<Rightarrow> False
         | Inr s' \<Rightarrow> lock_depth (events s') = lock_depth (events s) + of_bool (m_file s' \<noteq> None)
             \<and> (\<forall>c. w_initAndLoad (env_createWallet e) = Throws c \<longrightarrow> m_file s' = None)"
    using openWallet_load_balance [OF s3(1,2), of password] s3(3)
    by (simp split: sum.splits)
  have load4: "case openWallet_load password (snd r) of
           Inl f \<Rightarrow> False
         | Inr s' \<Rightarrow> lock_depth (events s') = lock_depth (events s) + of_bool (m_file s' \<noteq> None)
             \<and> (\<forall>c. w_initAndLoad (env_createWallet e) = Throws c \<longrightarrow> m_file s' = None)"
    if "fst r"
  proof -
    have w: "m_wallet (snd r) = Some (env_createWallet e)"
      using importLegacyWallet_imported [of wp e password s3] s3(2) that by (simp add: r_def)
    show ?thesis
      using openWallet_load_balance [OF b(2) w, of password] b(1) by (simp split: sum.splits)
  qed
  have eq: "openWallet wp e password s =
     (if QFile_exists (fs s) (walletFile s) then
           (if endsWith (walletFile s) ''.keys''
            then (if \<not> fst r then Inr (snd r) else openWallet_load password (snd r))
            else openWallet_load password s3)
         else
           (case w_initAndGenerate (env_createWallet e) of
              Throws c \<Rightarrow> Inr (s2\<lparr>encrypted := False, m_wallet := None\<rparr>)
            | Returns u \<Rightarrow> Inr (s2\<lparr>encrypted := False\<rparr>)))"
    unfolding openWallet_unfold [OF assms(2)] Let_def r_def s3_def s2_def ..
  show ?thesis
    unfolding eq using load3 load4 b s2
    by (simp split: engine_result.split)
qed

lemma save_file_balance:
  assumes "m_file s = None" "m_wallet s = Some w"
  shows "case save_file p d c s of
           Inl f \<Rightarrow> False
         | Inr (saved, s') \<Rightarrow>
             (saved \<longleftrightarrow> m_file s' \<noteq> None)
             \<and> lock_depth (events s') = lock_depth (events s) + of_bool saved
             \<and> m_wallet s' = Some w
             \<and> (\<forall>x. w_save w = Throws x \<longrightarrow> \<not> saved)"
proof (cases "fst (openFile p False s)")
  case True
  from openFile_opened [OF assms(1) True] True assms(2) show ?thesis
    by (simp add: save_file_def split_beta split: engine_result.split)
next
  case False
  from openFile_failed [OF assms(1) False] False assms(2) show ?thesis
    by (simp add: save_file_def split_beta)
qed

lemma initCompleted_balance:
  "lock_depth (events (initCompleted err s)) =
     lock_depth (events s) - of_bool (m_file s \<noteq> None)
   \<and> m_file (initCompleted err s) = None"
  by (simp add: initCompleted_def)

lemma saveCompleted_balance:
  assumes "QFile_exists (fs s) (walletFile s @ ''.temp'') \<or> err \<noteq> 0 \<or> m_isBackupInProgress s"
  shows "case saveCompleted err s of
           Inl f \<Rightarrow> False
         | Inr s' \<Rightarrow>
             lock_depth (events s') = lock_depth (events s) - 1
             \<and> m_file s' = None \<and> \<not> m_mutex s'"
  using assms by (auto simp: saveCompleted_def renameFile_def)

text \<open>
  C3. \<open>openFile\<close> takes the lock, then tries to open the stream; when the stream did not
  open it releases the lock before it returns, and when the stream opened the lock is held
  and the \<open>closeFile\<close> that follows releases it. On every way out of the callers the
  acquisitions and releases are balanced: \<open>importLegacyWallet\<close> ends with the stream
  closed and the lock depth it started with, whether the importer returns or throws;
  \<open>save\<close> and \<open>open\<close> end one acquisition up exactly when they leave the stream open for
  the engine, never when the engine call threw; \<open>initCompleted\<close> and \<open>saveCompleted\<close>
  then release it. The stream is closed when the call starts.
\<close>

theorem openFile_lock_balanced:
  assumes "m_file s = None"
  shows
    "(case openFile path readOnly s of
        (opened, s') \<Rightarrow>
          events s' = events s @ [MutexLock, FileOpen path readOnly]
                        @ (if opened then [] else [MutexUnlock])
          \<and> (if opened
              then m_mutex s' \<and> m_file s' = Some path
                   \<and> lock_depth (events s') = lock_depth (events s) + 1
                   \<and> events (closeFile s') = events s' @ [FileClose, MutexUnlock]
                   \<and> \<not> m_mutex (closeFile s') \<and> m_file (closeFile s') = None
                   \<and> lock_depth (events (closeFile s')) = lock_depth (events s)
              else \<not> m_mutex s' \<and> m_file s' = None
                   \<and> lock_depth (events s') = lock_depth (events s)))
     \<and> (case importLegacyWallet wp e password s of
          (imported, s') \<Rightarrow>
            m_file s' = None \<and> lock_depth (events s') = lock_depth (events s))
     \<and> (\<forall>w. m_wallet s = Some w \<longrightarrow>
          (case save_file path details cache s of
             Inl f \<Rightarrow> False
           | Inr (saved, s') \<Rightarrow>
               (saved \<longleftrightarrow> m_file s' \<noteq> None)
               \<and> lock_depth (events s') = lock_depth (events s) + of_bool saved
               \<and> (\<forall>c. w_save w = Throws c \<longrightarrow> \<not> saved)))
     \<and> (m_wallet s = None \<longrightarrow>
          (case openWallet wp e password s of
             Inl f \<Rightarrow> False
           | Inr s' \<Rightarrow>
               lock_depth (events s') = lock_depth (events s) + of_bool (m_file s' \<noteq> None)
               \<and> (\<forall>c. w_initAndLoad (env_createWallet e) = Throws c \<longrightarrow> m_file s' = None)
               \<and> lock_depth (events (initCompleted err s')) = lock_depth (events s)
               \<and> m_file (initCompleted err s') = None))
     \<and> (QFile_exists (fs t) (walletFile t @ ''.temp'') \<or> err \<noteq> 0 \<or> m_isBackupInProgress t \<longrightarrow>
          (case saveCompleted err t of
             Inl f \<Rightarrow> False
           | Inr t' \<Rightarrow>
               lock_depth (events t') = lock_depth (events t) - 1
               \<and> m_file t' = None \<and> \<not> m_mutex t'))"
proof -
  have a: "case openFile path readOnly s of
        (opened, s') \<Rightarrow>
          events s' = events s @ [MutexLock, FileOpen path readOnly]
                        @ (if opened then [] else [MutexUnlock])
          \<and> (if opened
              then m_mutex s' \<and> m_file s' = Some path
                   \<and> lock_depth (events s') = lock_depth (events s) + 1
                   \<and> events (closeFile s') = events s' @ [FileClose, MutexUnlock]
                   \<and> \<not> m_mutex (closeFile s') \<and> m_file (closeFile s') = None
                   \<and> lock_depth (events (closeFile s')) = lock_depth (events s)
              else \<not> m_mutex s' \<and> m_file s' = None
                   \<and> lock_depth (events s') = lock_depth (events s))"
  proof (cases "fst (openFile path readOnly s)")
    case True
    from openFile_opened [OF assms True] True show ?thesis
      by (simp add: split_beta)
  next
    case False
    from openFile_failed [OF assms False] False show ?thesis
      by (simp add: split_beta)
  qed
  have b: "case importLegacyWallet wp e password s of
          (imported, s') \<Rightarrow>
            m_file s' = None \<and> lock_depth (events s') = lock_depth (events s)"
    using importLegacyWallet_balance [OF assms, of wp e password] by (simp add: split_beta)
  have c: "case save_file path details cache s of
             Inl f \<Rightarrow> False
           | Inr (saved, s') \<Rightarrow>
               (saved \<longleftrightarrow> m_file s' \<noteq> None)
               \<and> lock_depth (events s') = lock_depth (events s) + of_bool saved
               \<and> (\<forall>c. w_save w = Throws c \<longrightarrow> \<not> saved)"
    if "m_wallet s = Some w" for w
    using save_file_balance [OF assms that, of path details cache]
    by (auto split: sum.splits prod.splits)
  have d: "case openWallet wp e password s of
             Inl f \<Rightarrow> False
           | Inr s' \<Rightarrow>
               lock_depth (events s') = lock_depth (events s) + of_bool (m_file s' \<noteq> None)
               \<and> (\<forall>c. w_initAndLoad (env_createWallet e) = Throws c \<longrightarrow> m_file s' = None)
               \<and> lock_depth (events (initCompleted err s')) = lock_depth (events s)
               \<and> m_file (initCompleted err s') = None"
    if "m_wallet s = None"
    using openWallet_balance [OF assms that, where wp = wp and e = e and password = password]
      initCompleted_balance [of err]
    by (simp split: sum.splits)
  have f: "case saveCompleted err t of
             Inl f \<Rightarrow> False
           | Inr t' \<Rightarrow>
               lock_depth (events t') = lock_depth (events t) - 1
               \<and> m_file t' = None \<and> \<not> m_mutex t'"
    if "QFile_exists (fs t) (walletFile t @ ''.temp'') \<or> err \<noteq> 0 \<or> m_isBackupInProgress t"
    using saveCompleted_balance [OF that] .
  from a b c d f show ?thesis by blast
qed

theorem openFile_lock_balanced_witness:
  "m_file ex_adapter = None
   \<and> events (snd (openFile ''/w/my.wallet'' True ex_adapter)) =
        [MutexLock, FileOpen ''/w/my.wallet'' True]
   \<and> m_mutex (snd (openFile ''/w/my.wallet'' True ex_adapter))
   \<and> lock_depth (events (closeFile (snd (openFile ''/w/my.wallet'' True ex_adapter)))) = 0
   \<and> events (snd (openFile ''/w/none.wallet'' True ex_adapter)) =
        [MutexLock, FileOpen ''/w/none.wallet'' True, MutexUnlock]
   \<and> \<not> m_mutex (snd (openFile ''/w/none.wallet'' True ex_adapter))
   \<and> m_wallet ex_adapter = None
   \<and> \<not> isl (openWallet 4 ex_env [] ex_adapter)
   \<and> lock_depth (events (initCompleted 0 (projr (openWallet 4 ex_env [] ex_adapter)))) = 0
   \<and> m_file ex_failing = None \<and> m_wallet ex_failing = Some ex_failing_wallet
   \<and> w_save ex_failing_wallet = Throws 3
   \<and> \<not> isl (save_file ''/w/my.wallet.temp'' True True ex_failing)
   \<and> \<not> fst (projr (save_file ''/w/my.wallet.temp'' True True ex_failing))
   \<and> lock_depth (events (snd (projr (save_file ''/w/my.wallet.temp'' True True ex_failing)))) = 0
   \<and> QFile_exists (fs ex_saving) (walletFile ex_saving @ ''.temp'')
   \<and> \<not> isl (saveCompleted 0 ex_saving)
   \<and> lock_depth (events (projr (saveCompleted 0 ex_saving))) = 0
   \<and> m_file (projr (saveCompleted 0 ex_saving)) = None"
proof -
  have n: "m_file ex_adapter = None" "events ex_adapter = []" "m_wallet ex_adapter = None"
    "m_file ex_failing = None" "events ex_failing = []"
    "m_wallet ex_failing = Some ex_failing_wallet" "w_save ex_failing_wallet = Throws 3"
    "QFile_exists (fs ex_saving) (walletFile ex_saving @ ''.temp'')"
    "lock_depth (events ex_saving) = 1"
    by (simp_all add: ex_adapter_def ex_failing_def ex_failing_wallet_def ex_saving_def
          QFile_exists_def lookup_file_def)
  have o: "fst (openFile ''/w/my.wallet'' True ex_adapter)"
    "\<not> fst (openFile ''/w/none.wallet'' True ex_adapter)"
    by (simp_all add: openFile_def lock_def unlock_def fstream_open_def Let_def lookup_file_def
          ex_adapter_def ex_fs_def ex_backup_def)
  note a = openFile_lock_balanced [OF n(1), where path = "''/w/my.wallet''" and readOnly = True
      and wp = 4 and e = ex_env and password = "[]" and details = True and cache = True
      and err = 0 and t = ex_saving]
  note b = openFile_lock_balanced [OF n(1), where path = "''/w/none.wallet''" and readOnly = True
      and wp = 4 and e = ex_env and password = "[]" and details = True and cache = True
      and err = 0 and t = ex_saving]
  note c = openFile_lock_balanced [OF n(4), where path = "''/w/my.wallet.temp''" and readOnly = True
      and wp = 4 and e = ex_env and password = "[]" and details = True and cache = True
      and err = 0 and t = ex_saving]
  have a1: "events (snd (openFile ''/w/my.wallet'' True ex_adapter)) =
        [MutexLock, FileOpen ''/w/my.wallet'' True]
   \<and> m_mutex (snd (openFile ''/w/my.wallet'' True ex_adapter))
   \<and> lock_depth (events (closeFile (snd (openFile ''/w/my.wallet'' True ex_adapter)))) = 0"
    using a [THEN conjunct1] n(2) o(1) by (simp add: split_beta)
  have b1: "events (snd (openFile ''/w/none.wallet'' True ex_adapter)) =
        [MutexLock, FileOpen ''/w/none.wallet'' True, MutexUnlock]
   \<and> \<not> m_mutex (snd (openFile ''/w/none.wallet'' True ex_adapter))"
    using b [THEN conjunct1] n(2) o(2) by (simp add: split_beta)
  have a4: "\<not> isl (openWallet 4 ex_env [] ex_adapter)
   \<and> lock_depth (events (initCompleted 0 (projr (openWallet 4 ex_env [] ex_adapter)))) = 0"
    using a [THEN conjunct2, THEN conjunct2, THEN conjunct2, THEN conjunct1] n(2,3)
    by (auto split: sum.splits)
  have c3: "\<not> isl (save_file ''/w/my.wallet.temp'' True True ex_failing)
   \<and> \<not> fst (projr (save_file ''/w/my.wallet.temp'' True True ex_failing))
   \<and> lock_depth (events (snd (projr (save_file ''/w/my.wallet.temp'' True True ex_failing)))) = 0"
    using c [THEN conjunct2, THEN conjunct2, THEN conjunct1] n(5,6,7)
    by (auto split: sum.splits)
  have a5: "\<not> isl (saveCompleted 0 ex_saving)
   \<and> lock_depth (events (projr (saveCompleted 0 ex_saving))) = 0
   \<and> m_file (projr (saveCompleted 0 ex_saving)) = None"
    using a [THEN conjunct2, THEN conjunct2, THEN conjunct2, THEN conjunct2] n(8,9)
    by (auto split: sum.splits)
  show ?thesis
    using n a1 b1 a4 c3 a5 by simp
qed

section \<open>Completion of a save\<close>

lemma map_of_filter_neq:
  "map_of (filter (\<lambda>e. fst e \<noteq> p) xs) q = (if q = p then None else map_of xs q)"
  by (induction xs) auto

lemma lookup_file_QFile_remove:
  "lookup_file (QFile_remove p fsys) q = (if q = p then None else lookup_file fsys q)"
  by (simp add: lookup_file_def QFile_remove_def map_of_filter_neq)

lemma QDir_exists_QFile_remove [simp]:
  "QDir_exists (QFile_remove p fsys) d = QDir_exists fsys d"
  by (simp add: QDir_exists_def QFile_remove_def)

lemma QFile_rename_moves:
  assumes "lookup_file fsys old = Some f" "lookup_file fsys new = None"
    "\<not> QDir_exists fsys new" "QDir_exists fsys (dirPath new)"
  shows "lookup_file (QFile_rename old new fsys) q =
           (if q = new then Some f else if q = old then None else lookup_file fsys q)"
proof -
  from assms have ne: "old \<noteq> new" by auto
  show ?thesis
    using assms ne
    by (simp add: QFile_rename_def QFile_exists_def lookup_file_def map_add_def
          map_of_filter_neq split: option.splits)
qed

lemma openFile_other_files:
  "p \<noteq> q \<Longrightarrow> lookup_file (fs (snd (openFile q r s))) p = lookup_file (fs s) p"
  by (simp add: openFile_def lock_def unlock_def fstream_open_def Let_def lookup_file_def
        map_add_def map_of_filter_neq split: option.splits)

text \<open>
  C2. When a save completes, a backup copy (\<open>m_isBackupInProgress\<close> set) leaves the file
  system as it is, whatever the error code, and clears the flag. A normal save that
  completes without error removes the wallet file and renames \<open><walletFile>.temp\<close> to it:
  afterwards the wallet file is the former temporary file, the temporary file is gone and
  no other file has changed. This needs what \<open>renameFile\<close> asserts, that the temporary
  file exists, and that the wallet file's path is not a directory but lies in one. A save
  that completes with an error promotes nothing. \<open>backup\<close> sets the flag exactly when its
  save was started and touches no file but its own target; \<open>save\<close> never changes the
  flag.
\<close>

theorem saveCompleted_promotion:
  "(m_isBackupInProgress s \<longrightarrow>
      (case saveCompleted err s of
         Inl f \<Rightarrow> False
       | Inr s' \<Rightarrow> fs s' = fs s \<and> \<not> m_isBackupInProgress s' \<and> m_file s' = None))
   \<and> (\<not> m_isBackupInProgress s
       \<and> lookup_file (fs s) (walletFile s @ ''.temp'') = Some tmp
       \<and> \<not> QDir_exists (fs s) (walletFile s)
       \<and> QDir_exists (fs s) (dirPath (walletFile s)) \<longrightarrow>
      (case saveCompleted 0 s of
         Inl f \<Rightarrow> False
       | Inr s' \<Rightarrow>
           fs s' = QFile_rename (walletFile s @ ''.temp'') (walletFile s)
                     (QFile_remove (walletFile s) (fs s))
           \<and> lookup_file (fs s') (walletFile s) = Some tmp
           \<and> lookup_file (fs s') (walletFile s @ ''.temp'') = None
           \<and> (\<forall>p. p \<noteq> walletFile s \<and> p \<noteq> walletFile s @ ''.temp'' \<longrightarrow>
                  lookup_file (fs s') p = lookup_file (fs s) p)))
   \<and> (err \<noteq> 0 \<longrightarrow>
      (case saveCompleted err s of Inl f \<Rightarrow> False | Inr s' \<Rightarrow> fs s' = fs s))
   \<and> (case backup path s of
         Inl f \<Rightarrow> m_wallet s = None
       | Inr s' \<Rightarrow>
           m_isBackupInProgress s' = (m_isBackupInProgress s \<or> fst (openFile
              (if endsWith path ''.wallet'' then path else path @ ''.wallet'') False s) \<and>
              (\<forall>w. m_wallet s = Some w \<longrightarrow> w_save w = Returns ()))
           \<and> (\<forall>p. p \<noteq> (if endsWith path ''.wallet'' then path else path @ ''.wallet'') \<longrightarrow>
                  lookup_file (fs s') p = lookup_file (fs s) p))
   \<and> (case save details cache s of
         Inl f \<Rightarrow> m_wallet s = None
       | Inr (saved, s') \<Rightarrow> m_isBackupInProgress s' = m_isBackupInProgress s)"
proof -
  have a: "case saveCompleted err s of
         Inl f \<Rightarrow> False
       | Inr s' \<Rightarrow> fs s' = fs s \<and> \<not> m_isBackupInProgress s' \<and> m_file s' = None"
    if "m_isBackupInProgress s"
    using that by (simp add: saveCompleted_def closeFile_def unlock_def)
  have b: "case saveCompleted 0 s of
         Inl f \<Rightarrow> False
       | Inr s' \<Rightarrow>
           fs s' = QFile_rename (walletFile s @ ''.temp'') (walletFile s)
                     (QFile_remove (walletFile s) (fs s))
           \<and> lookup_file (fs s') (walletFile s) = Some tmp
           \<and> lookup_file (fs s') (walletFile s @ ''.temp'') = None
           \<and> (\<forall>p. p \<noteq> walletFile s \<and> p \<noteq> walletFile s @ ''.temp'' \<longrightarrow>
                  lookup_file (fs s') p = lookup_file (fs s) p)"
    if h: "\<not> m_isBackupInProgress s" "lookup_file (fs s) (walletFile s @ ''.temp'') = Some tmp"
      "\<not> QDir_exists (fs s) (walletFile s)" "QDir_exists (fs s) (dirPath (walletFile s))"
  proof -
    define r where "r = QFile_remove (walletFile s) (fs s)"
    have r: "lookup_file r (walletFile s @ ''.temp'') = Some tmp"
      "lookup_file r (walletFile s) = None" "\<not> QDir_exists r (walletFile s)"
      "QDir_exists r (dirPath (walletFile s))"
      using h by (simp_all add: r_def lookup_file_QFile_remove)
    have ex: "QFile_exists (fs s) (walletFile s @ ''.temp'')"
      using h(2) by (simp add: QFile_exists_def)
    have look: "lookup_file (QFile_rename (walletFile s @ ''.temp'') (walletFile s) r) q =
           (if q = walletFile s then Some tmp else if q = walletFile s @ ''.temp'' then None
            else lookup_file (fs s) q)" for q
      using QFile_rename_moves [OF r, of q] by (simp add: r_def lookup_file_QFile_remove)
    show ?thesis
      using h(1) ex look
      by (simp add: saveCompleted_def renameFile_def closeFile_def unlock_def emit_def
            r_def [symmetric])
  qed
  have c: "case saveCompleted err s of Inl f \<Rightarrow> False | Inr s' \<Rightarrow> fs s' = fs s"
    if "err \<noteq> 0"
    using that by (simp add: saveCompleted_def closeFile_def unlock_def emit_def)
  have d: "case backup path s of
         Inl f \<Rightarrow> m_wallet s = None
       | Inr s' \<Rightarrow>
           m_isBackupInProgress s' = (m_isBackupInProgress s \<or> fst (openFile
              (if endsWith path ''.wallet'' then path else path @ ''.wallet'') False s) \<and>
              (\<forall>w. m_wallet s = Some w \<longrightarrow> w_save w = Returns ()))
           \<and> (\<forall>p. p \<noteq> (if endsWith path ''.wallet'' then path else path @ ''.wallet'') \<longrightarrow>
                  lookup_file (fs s') p = lookup_file (fs s) p)"
    by (auto simp: backup_def save_file_def split_beta closeFile_def unlock_def emit_def
          openFile_other_files
          simp del: openFile_fields(8)
          split: option.splits engine_result.splits)
  have e: "case save details cache s of
         Inl f \<Rightarrow> m_wallet s = None
       | Inr (saved, s') \<Rightarrow> m_isBackupInProgress s' = m_isBackupInProgress s"
    by (auto simp: save_def save_file_def split_beta closeFile_def unlock_def emit_def
          split: option.splits engine_result.splits)
  from a b c d e show ?thesis by blast
qed

theorem saveCompleted_promotion_witness:
  "\<not> m_isBackupInProgress ex_saving
   \<and> lookup_file (fs ex_saving) ''/w/my.wallet'' = Some \<lparr>content = ''old'', mtime = 40\<rparr>
   \<and> lookup_file (fs ex_saving) ''/w/my.wallet.temp'' = Some \<lparr>content = ''new'', mtime = 50\<rparr>
   \<and> \<not> isl (saveCompleted 0 ex_saving)
   \<and> lookup_file (fs (projr (saveCompleted 0 ex_saving))) ''/w/my.wallet''
        = Some \<lparr>content = ''new'', mtime = 50\<rparr>
   \<and> lookup_file (fs (projr (saveCompleted 0 ex_saving))) ''/w/my.wallet.temp'' = None
   \<and> \<not> isl (saveCompleted 0 (ex_saving\<lparr>m_isBackupInProgress := True\<rparr>))
   \<and> fs (projr (saveCompleted 0 (ex_saving\<lparr>m_isBackupInProgress := True\<rparr>))) = fs ex_saving"
proof -
  have h: "\<not> m_isBackupInProgress ex_saving" "walletFile ex_saving = ''/w/my.wallet''"
    "lookup_file (fs ex_saving) ''/w/my.wallet'' = Some \<lparr>content = ''old'', mtime = 40\<rparr>"
    "lookup_file (fs ex_saving) (walletFile ex_saving @ ''.temp'') = Some \<lparr>content = ''new'', mtime = 50\<rparr>"
    "\<not> QDir_exists (fs ex_saving) (walletFile ex_saving)"
    "QDir_exists (fs ex_saving) (dirPath (walletFile ex_saving))"
    by (simp_all add: ex_saving_def ex_adapter_def lookup_file_def QDir_exists_def dirPath_def)
  show ?thesis
    using h
      saveCompleted_promotion [where s = ex_saving and err = 0
        and tmp = "\<lparr>content = ''new'', mtime = 50\<rparr>" and path = "[]" and details = True
        and cache = True, THEN conjunct2, THEN conjunct1]
      saveCompleted_promotion [where s = "ex_saving\<lparr>m_isBackupInProgress := True\<rparr>"
        and err = 0 and tmp = "\<lparr>content = ''new'', mtime = 50\<rparr>" and path = "[]"
        and details = True and cache = True, THEN conjunct1]
    by (auto split: sum.splits)
qed

section \<open>Failures of open, import and save\<close>

lemma importLegacyWallet_cases:
  assumes "m_file s = None"
  shows "case importLegacyWallet wp e password s of
           (imported, s') \<Rightarrow>
             (let walletPath = replace_at (walletFile s) (lastIndexOf (walletFile s) ''.keys'') 5
                                 ''.wallet'';
                  opened = fst (openFile walletPath False (s\<lparr>encrypted := (password \<noteq> [])\<rparr>));
                  tried = events s @ [MutexLock, FileOpen walletPath False]
              in (imported \<longleftrightarrow> opened \<and> env_importLegacyKeys e = Imported)
                 \<and> m_file s' = None \<and> \<not> m_mutex s'
                 \<and> (\<not> imported \<longrightarrow> m_wallet s' = None)
                 \<and> (opened \<and> env_importLegacyKeys e = ImportSystemError wp \<longrightarrow>
                       encrypted s'
                       \<and> events s' = tried @ [FileClose, MutexUnlock,
                                       Emit (openWalletWithPasswordSignal (password \<noteq> []))])
                 \<and> (opened \<and> env_importLegacyKeys e \<noteq> ImportSystemError wp \<longrightarrow>
                       events s' = tried @ [FileClose, MutexUnlock])
                 \<and> (\<not> opened \<longrightarrow> events s' = tried @ [MutexUnlock]))"
proof -
  define s1 where "s1 = s\<lparr>encrypted := (password \<noteq> [])\<rparr>"
  define q where "q = replace_at (walletFile s) (lastIndexOf (walletFile s) ''.keys'') 5 ''.wallet''"
  have c: "m_file s1 = None" "events s1 = events s" using assms by (simp_all add: s1_def)
  show ?thesis
  proof (cases "fst (openFile q False s1)")
    case True
    from openFile_opened [OF c(1) True] True show ?thesis
      by (auto simp add: importLegacyWallet_def Let_def split_beta s1_def [symmetric]
            q_def [symmetric] c simp del: openFile_fields(8)
            split: import_result.split)
  next
    case False
    from openFile_failed [OF c(1) False] False show ?thesis
      by (simp add: importLegacyWallet_def Let_def split_beta s1_def [symmetric]
            q_def [symmetric] c del: openFile_fields(8))
  qed
qed

lemma openFile_read_opened:
  "m_file s = None \<Longrightarrow> fst (openFile p True s) \<longleftrightarrow> lookup_file (fs s) p \<noteq> None"
  by (simp add: openFile_def lock_def unlock_def fstream_open_def Let_def del: openFile_fields(8))

lemma openWallet_load_throws_events:
  assumes "m_file s = None" "m_wallet s = Some w" "w_initAndLoad w = Throws c"
  shows "case openWallet_load password s of
           Inl f \<Rightarrow> False
         | Inr s' \<Rightarrow>
             m_file s' = None \<and> \<not> m_mutex s'
             \<and> (fst (openFile (walletFile s) True s) \<longrightarrow> m_wallet s' = None)
             \<and> encrypted s' = encrypted s
             \<and> events s' = events s @ [MutexLock, FileOpen (walletFile s) True]
                             @ (if fst (openFile (walletFile s) True s)
                                then [FileClose, MutexUnlock] else [MutexUnlock])"
proof (cases "fst (openFile (walletFile s) True s)")
  case True
  from openFile_opened [OF assms(1) True] True assms(2,3) show ?thesis
    by (simp add: openWallet_load_def split_beta)
next
  case False
  from openFile_failed [OF assms(1) False] False assms show ?thesis
    by (simp add: openWallet_load_def split_beta)
qed

lemma openWallet_throws:
  assumes "m_wallet s = None" "m_file s = None" "QFile_exists (fs s) (walletFile s)"
    "\<not> endsWith (walletFile s) ''.keys''" "w_initAndLoad (env_createWallet e) = Throws c"
    "lookup_file (fs (backupOnOpen e s)) (walletFile s) \<noteq> None"
  shows "case openWallet wp e password s of
           Inl f \<Rightarrow> False
         | Inr s' \<Rightarrow>
             m_wallet s' = None \<and> m_file s' = None \<and> \<not> m_mutex s'
             \<and> encrypted s' = (password \<noteq> [])
             \<and> events s' = events s @ [Emit (walletStateChangedSignal ''Opening wallet''),
                                       MutexLock, FileOpen (walletFile s) True,
                                       FileClose, MutexUnlock]"
proof -
  define s2 where "s2 = (emit (walletStateChangedSignal ''Opening wallet'')
                    (s\<lparr>encrypted := (password \<noteq> [])\<rparr>))\<lparr>m_wallet := Some (env_createWallet e)\<rparr>"
  define s3 where "s3 = backupOnOpen e s2"
  have s3: "m_file s3 = None" "m_wallet s3 = Some (env_createWallet e)"
    "events s3 = events s @ [Emit (walletStateChangedSignal ''Opening wallet'')]"
    "walletFile s3 = walletFile s" "encrypted s3 = (password \<noteq> [])"
    "fs s3 = fs (backupOnOpen e s)"
    using assms(2) by (simp_all add: s3_def s2_def backupOnOpen_def)
  have o: "fst (openFile (walletFile s3) True s3)"
    using openFile_read_opened [OF s3(1), of "walletFile s3"] assms(6) s3(4,6) by simp
  have eq: "openWallet wp e password s = openWallet_load password s3"
    unfolding openWallet_unfold [OF assms(1)] Let_def s3_def s2_def using assms(3,4) by simp
  show ?thesis
    unfolding eq
    using openWallet_load_throws_events [OF s3(1,2) assms(5), of password] o s3
    by (auto split: sum.splits)
qed

lemma save_file_throws:
  assumes "m_file s = None" "m_wallet s = Some w" "w_save w = Throws c"
  shows "case save_file path details cache s of
           Inl f \<Rightarrow> False
         | Inr (saved, s') \<Rightarrow>
             \<not> saved \<and> m_file s' = None \<and> \<not> m_mutex s' \<and> m_wallet s' = Some w"
proof (cases "fst (openFile path False s)")
  case True
  from openFile_opened [OF assms(1) True] True assms(2,3) show ?thesis
    by (simp add: save_file_def split_beta)
next
  case False
  from openFile_failed [OF assms(1) False] False assms show ?thesis
    by (simp add: save_file_def split_beta)
qed

text \<open>
  C4, as the code has it. Every failure that the engine reports for an open or a legacy
  import tears the wallet object down to null, \<open>WRONG_PASSWORD\<close> included. The failure
  reaches the adapter on one of three channels. A code delivered to
  \<open>onWalletInitCompleted\<close> and an exception of \<open>importLegacyKeys\<close> are read: on
  \<open>WRONG_PASSWORD\<close> the settings are also marked encrypted and
  \<open>openWalletWithPasswordSignal\<close> asks for the password again, on any other code no such
  signal is emitted. A \<open>std::system_error\<close> thrown by \<open>initAndLoad\<close> inside \<open>open\<close> is
  caught without reading its code: whatever the code, \<open>WRONG_PASSWORD\<close> included, the
  stream is closed, the lock released and the wallet deleted, no signal asks for the
  password and the encrypted setting stays as \<open>open\<close> set it from the password. An
  exception of the engine during import or save closes the stream and releases the lock
  as well; a failed save keeps the wallet object.
\<close>

theorem failed_open_tears_down:
  "(wp \<noteq> 0 \<longrightarrow>
      onWalletInitCompleted wp wp s =
        Inr (s\<lparr>events := events s @ [Emit (openWalletWithPasswordSignal (encrypted s))],
               encrypted := True, m_wallet := None\<rparr>))
   \<and> (err \<noteq> 0 \<and> err \<noteq> wp \<longrightarrow> onWalletInitCompleted wp err s = Inr (s\<lparr>m_wallet := None\<rparr>))
   \<and> (m_file s = None \<longrightarrow>
        (case importLegacyWallet wp e password s of
           (imported, s') \<Rightarrow>
             (let walletPath = replace_at (walletFile s) (lastIndexOf (walletFile s) ''.keys'') 5
                                 ''.wallet'';
                  opened = fst (openFile walletPath False (s\<lparr>encrypted := (password \<noteq> [])\<rparr>));
                  tried = events s @ [MutexLock, FileOpen walletPath False]
              in (imported \<longleftrightarrow> opened \<and> env_importLegacyKeys e = Imported)
                 \<and> m_file s' = None \<and> \<not> m_mutex s'
                 \<and> (\<not> imported \<longrightarrow> m_wallet s' = None)
                 \<and> (opened \<and> env_importLegacyKeys e = ImportSystemError wp \<longrightarrow>
                       encrypted s'
                       \<and> events s' = tried @ [FileClose, MutexUnlock,
                                       Emit (openWalletWithPasswordSignal (password \<noteq> []))])
                 \<and> (opened \<and> env_importLegacyKeys e \<noteq> ImportSystemError wp \<longrightarrow>
                       events s' = tried @ [FileClose, MutexUnlock])
                 \<and> (\<not> opened \<longrightarrow> events s' = tried @ [MutexUnlock]))))
   \<and> (m_file s = None \<and> m_wallet s = Some w \<and> w_initAndLoad w = Throws c \<longrightarrow>
        (case openWallet_load password s of
           Inl f \<Rightarrow> False
         | Inr s' \<Rightarrow>
             m_file s' = None \<and> \<not> m_mutex s'
             \<and> (fst (openFile (walletFile s) True s) \<longrightarrow> m_wallet s' = None)
             \<and> encrypted s' = encrypted s
             \<and> events s' = events s @ [MutexLock, FileOpen (walletFile s) True]
                             @ (if fst (openFile (walletFile s) True s)
                                then [FileClose, MutexUnlock] else [MutexUnlock])))
   \<and> (m_file s = None \<and> m_wallet s = Some w \<and> w_save w = Throws c \<longrightarrow>
        (case save_file path details cache s of
           Inl f \<Rightarrow> False
         | Inr (saved, s') \<Rightarrow>
             \<not> saved \<and> m_file s' = None \<and> \<not> m_mutex s' \<and> m_wallet s' = Some w))
   \<and> (err \<noteq> 0 \<longrightarrow>
        (case saveCompleted err s of
           Inl f \<Rightarrow> False
         | Inr s' \<Rightarrow> m_file s' = None \<and> \<not> m_mutex s' \<and> m_wallet s' = m_wallet s))
   \<and> (m_wallet s = None \<and> m_file s = None \<and> QFile_exists (fs s) (walletFile s)
       \<and> \<not> endsWith (walletFile s) ''.keys''
       \<and> w_initAndLoad (env_createWallet e) = Throws c
       \<and> lookup_file (fs (backupOnOpen e s)) (walletFile s) \<noteq> None \<longrightarrow>
        (case openWallet wp e password s of
           Inl f \<Rightarrow> False
         | Inr s' \<Rightarrow>
             m_wallet s' = None \<and> m_file s' = None \<and> \<not> m_mutex s'
             \<and> encrypted s' = (password \<noteq> [])
             \<and> events s' = events s @ [Emit (walletStateChangedSignal ''Opening wallet''),
                                       MutexLock, FileOpen (walletFile s) True,
                                       FileClose, MutexUnlock]))"
proof -
  have a: "onWalletInitCompleted wp wp s =
        Inr (s\<lparr>events := events s @ [Emit (openWalletWithPasswordSignal (encrypted s))],
               encrypted := True, m_wallet := None\<rparr>)" if "wp \<noteq> 0"
    using that by (simp add: onWalletInitCompleted_def emit_def)
  have b: "onWalletInitCompleted wp err s = Inr (s\<lparr>m_wallet := None\<rparr>)"
    if "err \<noteq> 0 \<and> err \<noteq> wp"
    using that by (simp add: onWalletInitCompleted_def)
  have f: "case saveCompleted err s of
           Inl f \<Rightarrow> False
         | Inr s' \<Rightarrow> m_file s' = None \<and> \<not> m_mutex s' \<and> m_wallet s' = m_wallet s"
    if "err \<noteq> 0"
    using that by (simp add: saveCompleted_def)
  have g: "case openWallet wp e password s of
           Inl f \<Rightarrow> False
         | Inr s' \<Rightarrow>
             m_wallet s' = None \<and> m_file s' = None \<and> \<not> m_mutex s'
             \<and> encrypted s' = (password \<noteq> [])
             \<and> events s' = events s @ [Emit (walletStateChangedSignal ''Opening wallet''),
                                       MutexLock, FileOpen (walletFile s) True,
                                       FileClose, MutexUnlock]"
    if "m_wallet s = None \<and> m_file s = None \<and> QFile_exists (fs s) (walletFile s)
       \<and> \<not> endsWith (walletFile s) ''.keys''
       \<and> w_initAndLoad (env_createWallet e) = Throws c
       \<and> lookup_file (fs (backupOnOpen e s)) (walletFile s) \<noteq> None"
    using that by (intro openWallet_throws) auto
  from a b f g importLegacyWallet_cases [where s = s and wp = wp and e = e and password = password]
    openWallet_load_throws_events [where s = s and w = w and c = c and password = password]
    save_file_throws [where s = s and w = w and c = c and path = path and details = details
      and cache = cache]
  show ?thesis by blast
qed

theorem failed_open_tears_down_witness:
  "(4 :: int) \<noteq> 0
   \<and> isOpen ex_loaded
   \<and> onWalletInitCompleted 4 4 ex_loaded =
       Inr (ex_loaded\<lparr>events := [Emit (openWalletWithPasswordSignal False)],
              encrypted := True, m_wallet := None\<rparr>)
   \<and> onWalletInitCompleted 4 5 ex_loaded = Inr (ex_loaded\<lparr>m_wallet := None\<rparr>)
   \<and> m_file ex_failing = None \<and> m_wallet ex_failing = Some ex_failing_wallet
   \<and> w_save ex_failing_wallet = Throws 3
   \<and> \<not> isl (save_file ''/w/my.wallet.temp'' True True ex_failing)
   \<and> \<not> fst (projr (save_file ''/w/my.wallet.temp'' True True ex_failing))
   \<and> m_file (snd (projr (save_file ''/w/my.wallet.temp'' True True ex_failing))) = None
   \<and> m_wallet (snd (projr (save_file ''/w/my.wallet.temp'' True True ex_failing)))
        = Some ex_failing_wallet
   \<and> w_initAndLoad ex_failing_wallet = Throws 3
   \<and> fst (openFile (walletFile ex_failing) True ex_failing)
   \<and> \<not> isl (openWallet_load [] ex_failing)
   \<and> m_wallet (projr (openWallet_load [] ex_failing)) = None
   \<and> m_file (projr (openWallet_load [] ex_failing)) = None
   \<and> m_file ex_legacy = None \<and> isOpen ex_legacy
   \<and> env_importLegacyKeys ex_wrong_password_env = ImportSystemError 4
   \<and> \<not> fst (importLegacyWallet 4 ex_wrong_password_env ''guess'' ex_legacy)
   \<and> m_wallet (snd (importLegacyWallet 4 ex_wrong_password_env ''guess'' ex_legacy)) = None
   \<and> encrypted (snd (importLegacyWallet 4 ex_wrong_password_env ''guess'' ex_legacy))
   \<and> events (snd (importLegacyWallet 4 ex_wrong_password_env ''guess'' ex_legacy)) =
        [MutexLock, FileOpen ''/w/my.wallet'' False, FileClose, MutexUnlock,
         Emit (openWalletWithPasswordSignal True)]
   \<and> w_initAndLoad (env_createWallet ex_rejecting_env) = Throws 4
   \<and> \<not> isl (openWallet 4 ex_rejecting_env ''guess'' ex_fresh)
   \<and> m_wallet (projr (openWallet 4 ex_rejecting_env ''guess'' ex_fresh)) = None
   \<and> encrypted (projr (openWallet 4 ex_rejecting_env ''guess'' ex_fresh))
   \<and> events (projr (openWallet 4 ex_rejecting_env ''guess'' ex_fresh)) =
        [Emit (walletStateChangedSignal ''Opening wallet''), MutexLock,
         FileOpen ''/w/my.wallet'' True, FileClose, MutexUnlock]"
proof -
  have h: "(4 :: int) \<noteq> 0" "(5 :: int) \<noteq> 0 \<and> (5 :: int) \<noteq> 4" "isOpen ex_loaded"
    "events ex_loaded = []" "encrypted ex_loaded = False"
    "m_file ex_failing = None" "m_wallet ex_failing = Some ex_failing_wallet"
    "w_save ex_failing_wallet = Throws 3" "w_initAndLoad ex_failing_wallet = Throws 3"
    "m_file ex_legacy = None" "isOpen ex_legacy" "events ex_legacy = []"
    "env_importLegacyKeys ex_wrong_password_env = ImportSystemError 4"
    by (simp_all add: ex_loaded_def ex_failing_def ex_adapter_def isOpen_def ex_failing_wallet_def
          ex_legacy_def ex_wrong_password_env_def)
  have o: "fst (openFile (walletFile ex_failing) True ex_failing)"
    by (simp add: openFile_def lock_def unlock_def fstream_open_def Let_def lookup_file_def
          ex_failing_def ex_adapter_def ex_fs_def)
  have q: "replace_at (walletFile ex_legacy) (lastIndexOf (walletFile ex_legacy) ''.keys'') 5
             ''.wallet'' = ''/w/my.wallet''"
    by code_simp
  have p: "fst (openFile ''/w/my.wallet'' False (ex_legacy\<lparr>encrypted := (''guess'' \<noteq> [])\<rparr>))"
    by (simp add: openFile_def lock_def unlock_def fstream_open_def Let_def
          ex_legacy_def ex_adapter_def QDir_exists_def dirPath_def)
  note t = failed_open_tears_down [where wp = 4 and err = 5 and s = ex_loaded and w = ex_failing_wallet
      and c = 3 and e = ex_env and password = "[]" and path = "[]" and details = True and cache = True]
  note u = failed_open_tears_down [where wp = 4 and err = 5 and s = ex_failing and w = ex_failing_wallet
      and c = 3 and e = ex_env and password = "[]" and path = "''/w/my.wallet.temp''"
      and details = True and cache = True]
  note v = failed_open_tears_down [where wp = 4 and err = 5 and s = ex_legacy and w = ex_failing_wallet
      and c = 3 and e = ex_wrong_password_env and password = "''guess''" and path = "[]"
      and details = True and cache = True]
  have s: "case save_file ''/w/my.wallet.temp'' True True ex_failing of
           Inl f \<Rightarrow> False
         | Inr (saved, s') \<Rightarrow>
             \<not> saved \<and> m_file s' = None \<and> \<not> m_mutex s' \<and> m_wallet s' = Some ex_failing_wallet"
    using u [THEN conjunct2, THEN conjunct2, THEN conjunct2, THEN conjunct2, THEN conjunct1] h
    by blast
  have l: "case openWallet_load [] ex_failing of
           Inl f \<Rightarrow> False
         | Inr s' \<Rightarrow> m_file s' = None \<and> \<not> m_mutex s' \<and> m_wallet s' = None"
    using u [THEN conjunct2, THEN conjunct2, THEN conjunct2, THEN conjunct1] h o
    by (auto split: sum.splits)
  have i: "\<not> fst (importLegacyWallet 4 ex_wrong_password_env ''guess'' ex_legacy)
   \<and> m_wallet (snd (importLegacyWallet 4 ex_wrong_password_env ''guess'' ex_legacy)) = None
   \<and> encrypted (snd (importLegacyWallet 4 ex_wrong_password_env ''guess'' ex_legacy))
   \<and> events (snd (importLegacyWallet 4 ex_wrong_password_env ''guess'' ex_legacy)) =
        [MutexLock, FileOpen ''/w/my.wallet'' False, FileClose, MutexUnlock,
         Emit (openWalletWithPasswordSignal True)]"
    using v [THEN conjunct2, THEN conjunct2, THEN conjunct1] h(10,12,13) p
    by (simp add: Let_def q split_beta)
  have r: "m_wallet ex_fresh = None" "m_file ex_fresh = None" "events ex_fresh = []"
    "walletFile ex_fresh = ''/w/my.wallet''"
    "QFile_exists (fs ex_fresh) (walletFile ex_fresh)"
    "\<not> endsWith (walletFile ex_fresh) ''.keys''"
    "w_initAndLoad (env_createWallet ex_rejecting_env) = Throws 4"
    by (simp_all add: ex_fresh_def ex_adapter_def QFile_exists_def lookup_file_def endsWith_def
          ex_rejecting_env_def ex_env_def)
  have k: "lookup_file (fs (backupOnOpen ex_rejecting_env ex_fresh)) (walletFile ex_fresh)
             = Some \<lparr>content = ''keys'', mtime = 40\<rparr>"
    by code_simp
  note x = failed_open_tears_down [where wp = 4 and err = 5 and s = ex_fresh
      and w = ex_failing_wallet and c = 4 and e = ex_rejecting_env and password = "''guess''"
      and path = "[]" and details = True and cache = True]
  have n: "\<not> isl (openWallet 4 ex_rejecting_env ''guess'' ex_fresh)
   \<and> m_wallet (projr (openWallet 4 ex_rejecting_env ''guess'' ex_fresh)) = None
   \<and> encrypted (projr (openWallet 4 ex_rejecting_env ''guess'' ex_fresh))
   \<and> events (projr (openWallet 4 ex_rejecting_env ''guess'' ex_fresh)) =
        [Emit (walletStateChangedSignal ''Opening wallet''), MutexLock,
         FileOpen ''/w/my.wallet'' True, FileClose, MutexUnlock]"
    using x [THEN conjunct2, THEN conjunct2, THEN conjunct2, THEN conjunct2, THEN conjunct2,
             THEN conjunct2] r k
    by (auto split: sum.splits)
  show ?thesis
    using h o t [THEN conjunct1] t [THEN conjunct2, THEN conjunct1] s l i r(7) n
    by (auto split: sum.splits)
qed

text \<open>
  C4 as the specification words it fails: with \<open>WRONG_PASSWORD = 4\<close>, an open wallet object
  is null after \<open>onWalletInitCompleted\<close> ran with that code, and a wallet whose save throws
  is still there after \<open>save\<close> returned false.
\<close>

theorem wrong_password_keeps_wallet_counterexample:
  "isOpen ex_loaded
   \<and> \<not> isl (onWalletInitCompleted 4 4 ex_loaded)
   \<and> \<not> isOpen (projr (onWalletInitCompleted 4 4 ex_loaded))
   \<and> isOpen ex_failing
   \<and> \<not> isl (save True True ex_failing)
   \<and> \<not> fst (projr (save True True ex_failing))
   \<and> isOpen (snd (projr (save True True ex_failing)))"
  by (simp add: onWalletInitCompleted_def save_def save_file_def openFile_def lock_def unlock_def
        fstream_open_def closeFile_def emit_def isOpen_def Let_def split_beta
        ex_loaded_def ex_failing_def ex_adapter_def ex_failing_wallet_def ex_wallet_def
        ex_fs_def QDir_exists_def dirPath_def)

lemma openFile_keeps_files:
  "lookup_file (fs s) p \<noteq> None \<Longrightarrow> lookup_file (fs (snd (openFile q r s))) p \<noteq> None"
  by (auto simp: openFile_def lock_def unlock_def fstream_open_def Let_def lookup_file_def
        map_add_def map_of_filter_neq split: option.splits)

lemma importLegacyWallet_keeps_files:
  "lookup_file (fs s) p \<noteq> None \<Longrightarrow>
   lookup_file (fs (snd (importLegacyWallet wp e password s))) p \<noteq> None"
proof -
  assume a: "lookup_file (fs s) p \<noteq> None"
  define s1 where "s1 = s\<lparr>encrypted := (password \<noteq> [])\<rparr>"
  define q where "q = replace_at (walletFile s) (lastIndexOf (walletFile s) ''.keys'') 5 ''.wallet''"
  have "fs (snd (importLegacyWallet wp e password s)) = fs (snd (openFile q False s1))"
    by (simp add: importLegacyWallet_def Let_def split_beta s1_def q_def del: openFile_fields(8)
          split: import_result.split)
  moreover have "lookup_file (fs s1) p \<noteq> None" using a by (simp add: s1_def)
  ultimately show ?thesis using openFile_keeps_files by simp
qed

lemma openWallet_load_fs:
  "case openWallet_load password s of Inl f \<Rightarrow> True | Inr s' \<Rightarrow> fs s' = fs s"
  by (simp add: openWallet_load_def split_beta del: openFile_fields(8)
        split: option.split engine_result.split)

lemma backupOnOpen_fs_cong:
  "walletFile s' = walletFile s \<Longrightarrow> dataDir s' = dataDir s \<Longrightarrow> fs s' = fs s \<Longrightarrow>
   fs (backupOnOpen e s') = fs (backupOnOpen e s)"
  by (simp add: backupOnOpen_def)

lemma openWallet_fs:
  assumes "m_wallet s = None" "QFile_exists (fs s) (walletFile s)"
  shows "case openWallet wp e password s of
           Inl f \<Rightarrow> True
         | Inr s1 \<Rightarrow>
             (\<forall>p. lookup_file (fs (backupOnOpen e s)) p \<noteq> None \<longrightarrow> lookup_file (fs s1) p \<noteq> None)
             \<and> (\<not> endsWith (walletFile s) ''.keys'' \<longrightarrow>
                  fs s1 = fs (backupOnOpen e s) \<and> encrypted s1 = (password \<noteq> []))"
proof -
  define s2 where "s2 = (emit (walletStateChangedSignal ''Opening wallet'')
                    (s\<lparr>encrypted := (password \<noteq> [])\<rparr>))\<lparr>m_wallet := Some (env_createWallet e)\<rparr>"
  define s3 where "s3 = backupOnOpen e s2"
  define r where "r = importLegacyWallet wp e password s3"
  have b: "fs s3 = fs (backupOnOpen e s)" "encrypted s3 = (password \<noteq> [])"
    unfolding s3_def by (simp_all add: s2_def backupOnOpen_def)
  have k: "lookup_file (fs s3) p \<noteq> None \<Longrightarrow> lookup_file (fs (snd r)) p \<noteq> None" for p
    unfolding r_def by (rule importLegacyWallet_keeps_files)
  have l3: "case openWallet_load password s3 of Inl f \<Rightarrow> True
            | Inr s' \<Rightarrow> fs s' = fs s3 \<and> encrypted s' = encrypted s3"
    by (simp add: openWallet_load_def split_beta del: openFile_fields(8)
          split: option.split engine_result.split)
  have l4: "case openWallet_load password (snd r) of Inl f \<Rightarrow> True | Inr s' \<Rightarrow> fs s' = fs (snd r)"
    by (rule openWallet_load_fs)
  have eq: "openWallet wp e password s =
           (if endsWith (walletFile s) ''.keys''
            then (if \<not> fst r then Inr (snd r) else openWallet_load password (snd r))
            else openWallet_load password s3)"
    unfolding openWallet_unfold [OF assms(1)] Let_def r_def s3_def s2_def using assms(2) by simp
  show ?thesis
    unfolding eq using b k l3 l4 by (auto split: sum.splits)
qed

text \<open>
  C6. An existing wallet file is opened and the engine reports \<open>WRONG_PASSWORD\<close>: after
  \<open>initCompleted\<close> and the slot \<open>onWalletInitCompleted\<close> no wallet is open, the stream is
  closed, the last signal is \<open>openWalletWithPasswordSignal\<close>, and the file system is the
  one \<open>open\<close> left: every file that was there after \<open>backupOnOpen\<close> is still there, and
  for a wallet file that is not a legacy \<open>.keys\<close> file nothing at all has changed since
  the backup. \<open>WRONG_PASSWORD\<close> is not 0, no wallet is open and the stream is closed when
  \<open>open\<close> is called.
\<close>

theorem open_wrong_password:
  assumes "wp \<noteq> 0" "m_wallet s = None" "m_file s = None" "QFile_exists (fs s) (walletFile s)"
  shows "case openWallet wp e password s of
           Inl f \<Rightarrow> False
         | Inr s1 \<Rightarrow>
             (case onWalletInitCompleted wp wp (initCompleted wp s1) of
                Inl f \<Rightarrow> False
              | Inr s2 \<Rightarrow>
                  \<not> isOpen s2 \<and> m_file s2 = None
                  \<and> last (events s2) = Emit (openWalletWithPasswordSignal (encrypted s1))
                  \<and> fs s2 = fs s1
                  \<and> (\<forall>p. lookup_file (fs (backupOnOpen e s)) p \<noteq> None \<longrightarrow>
                         lookup_file (fs s2) p \<noteq> None)
                  \<and> (\<not> endsWith (walletFile s) ''.keys'' \<longrightarrow>
                       fs s2 = fs (backupOnOpen e s) \<and> encrypted s1 = (password \<noteq> [])))"
proof -
  from openWallet_balance [OF assms(3,2), where wp = wp and e = e and password = password]
  obtain s1 where s1: "openWallet wp e password s = Inr s1"
    by (cases "openWallet wp e password s") auto
  have f: "(\<forall>p. lookup_file (fs (backupOnOpen e s)) p \<noteq> None \<longrightarrow> lookup_file (fs s1) p \<noteq> None)
             \<and> (\<not> endsWith (walletFile s) ''.keys'' \<longrightarrow>
                  fs s1 = fs (backupOnOpen e s) \<and> encrypted s1 = (password \<noteq> []))"
    using openWallet_fs [OF assms(2,4), where wp = wp and e = e and password = password] s1
    by simp
  define t where "t = initCompleted wp s1"
  have t: "fs t = fs s1" "encrypted t = encrypted s1" "m_file t = None"
    by (simp_all add: t_def initCompleted_def)
  have c: "onWalletInitCompleted wp wp t =
             Inr (t\<lparr>events := events t @ [Emit (openWalletWithPasswordSignal (encrypted t))],
                    encrypted := True, m_wallet := None\<rparr>)"
    using assms(1) by (simp add: onWalletInitCompleted_def emit_def)
  show ?thesis
    using f t by (simp add: s1 c t_def [symmetric] isOpen_def)
qed

theorem open_wrong_password_witness:
  "(4 :: int) \<noteq> 0 \<and> m_wallet ex_fresh = None \<and> m_file ex_fresh = None
   \<and> QFile_exists (fs ex_fresh) (walletFile ex_fresh)
   \<and> \<not> isl (openWallet 4 ex_env ''secret'' ex_fresh)
   \<and> \<not> isl (onWalletInitCompleted 4 4
              (initCompleted 4 (projr (openWallet 4 ex_env ''secret'' ex_fresh))))
   \<and> \<not> isOpen (projr (onWalletInitCompleted 4 4
              (initCompleted 4 (projr (openWallet 4 ex_env ''secret'' ex_fresh)))))
   \<and> last (events (projr (onWalletInitCompleted 4 4
              (initCompleted 4 (projr (openWallet 4 ex_env ''secret'' ex_fresh))))))
        = Emit (openWalletWithPasswordSignal True)
   \<and> lookup_file (fs (projr (onWalletInitCompleted 4 4
              (initCompleted 4 (projr (openWallet 4 ex_env ''secret'' ex_fresh))))))
        ''/d/backup/my.09-03-2017-14-05.wallet'' = Some \<lparr>content = ''keys'', mtime = 50\<rparr>"
proof -
  have h: "(4 :: int) \<noteq> 0" "m_wallet ex_fresh = None" "m_file ex_fresh = None"
    "QFile_exists (fs ex_fresh) (walletFile ex_fresh)"
    "\<not> endsWith (walletFile ex_fresh) ''.keys''"
    by (simp_all add: ex_fresh_def ex_adapter_def QFile_exists_def lookup_file_def endsWith_def)
  have b: "lookup_file (fs (backupOnOpen ex_env ex_fresh)) ''/d/backup/my.09-03-2017-14-05.wallet''
            = Some \<lparr>content = ''keys'', mtime = 50\<rparr>"
    by code_simp
  show ?thesis
    using h b open_wrong_password [OF h(1-4), where e = ex_env and password = "''secret''"]
    by (auto split: sum.splits)
qed

section \<open>The copy made on open\<close>

lemma length_replace_at:
  "n \<le> length after \<Longrightarrow> length s \<le> length (replace_at s pos n after)"
  by (auto simp: replace_at_def)

lemma backupOnOpen_destination_length:
  "length (backupDir dir) < length (backupOnOpen_destination wfile dir now)"
proof -
  have "length (filePath (backupDir dir) (fileName wfile))
          \<le> length (backupOnOpen_destination wfile dir now)"
    unfolding backupOnOpen_destination_def Let_def
    by (rule length_replace_at) simp
  then show ?thesis by (simp add: filePath_def)
qed

lemma backupOnOpen_destination_not_backupDir:
  "backupOnOpen_destination wfile dir now \<noteq> backupDir dir"
  using backupOnOpen_destination_length [of dir wfile now] by auto

lemma dirPath_backupDir [simp]: "dirPath (backupDir dir) = dir"
  by (simp add: dirPath_def backupDir_def filePath_def)

lemma toString_backup_same_minute:
  "same_minute a b \<Longrightarrow> toString_backup a = toString_backup b"
  by (simp add: same_minute_def toString_backup_def)

lemma lookup_file_QDir_mkdir [simp]: "lookup_file (QDir_mkdir p fsys) q = lookup_file fsys q"
  by (simp add: lookup_file_def QDir_mkdir_def)

lemma fs_clock_QDir_mkdir [simp]: "fs_clock (QDir_mkdir p fsys) = fs_clock fsys"
  by (simp add: QDir_mkdir_def)

lemma fs_clock_QFile_remove [simp]: "fs_clock (QFile_remove p fsys) = fs_clock fsys"
  by (simp add: QFile_remove_def)

lemma QDir_exists_QDir_mkdir:
  "QDir_exists (QDir_mkdir p fsys) q \<longleftrightarrow>
     QDir_exists fsys q \<or> (q = p \<and> \<not> QFile_exists fsys p \<and> QDir_exists fsys (dirPath p))"
  by (auto simp: QDir_mkdir_def QDir_exists_def)

lemma lookup_file_QFile_copy_other:
  "p \<noteq> dst \<Longrightarrow> lookup_file (QFile_copy src dst fsys) p = lookup_file fsys p"
  by (simp add: QFile_copy_def lookup_file_def map_add_def split: option.splits)

lemma lookup_file_QFile_copy_dst:
  assumes "lookup_file fsys src = Some f" "lookup_file fsys dst = None"
    "\<not> QDir_exists fsys dst" "QDir_exists fsys (dirPath dst)"
  shows "lookup_file (QFile_copy src dst fsys) dst = Some \<lparr>content = content f, mtime = fs_clock fsys\<rparr>"
  using assms
  by (simp add: QFile_copy_def QFile_exists_def lookup_file_def map_add_def split: option.splits)

lemma backupOnOpen_copy_other:
  "p \<noteq> backupOnOpen_destination wfile dir now \<Longrightarrow>
   lookup_file (backupOnOpen_copy wfile dir now fsys) p = lookup_file fsys p"
  by (simp add: backupOnOpen_copy_def Let_def lookup_file_QFile_copy_other lookup_file_QFile_remove)

lemma backupOnOpen_copy_destination:
  assumes "lookup_file fsys wfile = Some src"
    "wfile \<noteq> backupOnOpen_destination wfile dir now"
    "\<not> QDir_exists fsys (backupOnOpen_destination wfile dir now)"
    "QDir_exists fsys (dirPath (backupOnOpen_destination wfile dir now))
       \<or> (dirPath (backupOnOpen_destination wfile dir now) = backupDir dir
           \<and> QDir_exists fsys dir \<and> lookup_file fsys (backupDir dir) = None)"
  shows "lookup_file (backupOnOpen_copy wfile dir now fsys) (backupOnOpen_destination wfile dir now)
           = Some \<lparr>content = content src, mtime = fs_clock fsys\<rparr>"
proof -
  define dest where "dest = backupOnOpen_destination wfile dir now"
  define fs1 where "fs1 = (if \<not> QDir_exists fsys (backupDir dir) then QDir_mkdir (backupDir dir) fsys
                 else fsys)"
  define fs2 where "fs2 = (if QFile_exists fs1 dest then QFile_remove dest fs1 else fs1)"
  have ne: "dest \<noteq> backupDir dir"
    unfolding dest_def by (rule backupOnOpen_destination_not_backupDir)
  have fs1: "lookup_file fs1 p = lookup_file fsys p" "fs_clock fs1 = fs_clock fsys"
    "\<not> QDir_exists fs1 dest" "QDir_exists fs1 (dirPath dest)" for p
    using assms(3,4) ne
    by (auto simp: fs1_def dest_def [symmetric] QDir_exists_QDir_mkdir QFile_exists_def)
  have fs2: "lookup_file fs2 wfile = Some src" "lookup_file fs2 dest = None"
    "\<not> QDir_exists fs2 dest" "QDir_exists fs2 (dirPath dest)" "fs_clock fs2 = fs_clock fsys"
    using fs1 assms(1,2)
    by (auto simp: fs2_def dest_def [symmetric] lookup_file_QFile_remove QFile_exists_def)
  have "backupOnOpen_copy wfile dir now fsys = QFile_copy wfile dest fs2"
    by (simp add: backupOnOpen_copy_def Let_def fs2_def fs1_def dest_def)
  then show ?thesis
    using lookup_file_QFile_copy_dst [OF fs2(1-4)] fs2(5) by (simp add: dest_def)
qed

lemma backupOnOpen_prune_only_deletes:
  "lookup_file (backupOnOpen_prune m wfile dir fsys) p = Some f \<Longrightarrow> lookup_file fsys p = Some f"
  by (simp add: backupOnOpen_prune_def lookup_file_def backupOnOpen_loop_files map_of_filter_fst
        split: if_splits)

lemma backupOnOpen_copy_never_stale:
  assumes "lookup_file (backupOnOpen_copy wfile dir now fsys)
             (backupOnOpen_destination wfile dir now) = Some f"
  shows "\<exists>src. lookup_file fsys wfile = Some src
               \<and> f = \<lparr>content = content src, mtime = fs_clock fsys\<rparr>"
proof -
  define dest where "dest = backupOnOpen_destination wfile dir now"
  define fs1 where "fs1 = (if \<not> QDir_exists fsys (backupDir dir) then QDir_mkdir (backupDir dir) fsys
                 else fsys)"
  define fs2 where "fs2 = (if QFile_exists fs1 dest then QFile_remove dest fs1 else fs1)"
  have fs1: "lookup_file fs1 p = lookup_file fsys p" "fs_clock fs1 = fs_clock fsys" for p
    by (simp_all add: fs1_def)
  have fs2: "lookup_file fs2 dest = None" "fs_clock fs2 = fs_clock fsys"
    "p \<noteq> dest \<Longrightarrow> lookup_file fs2 p = lookup_file fsys p" for p
    using fs1 by (auto simp: fs2_def lookup_file_QFile_remove QFile_exists_def)
  have eq: "backupOnOpen_copy wfile dir now fsys = QFile_copy wfile dest fs2"
    by (simp add: backupOnOpen_copy_def Let_def fs2_def fs1_def dest_def)
  from assms have l: "lookup_file (QFile_copy wfile dest fs2) dest = Some f"
    by (simp add: eq dest_def)
  show ?thesis
  proof (cases "lookup_file fs2 wfile")
    case None
    with l fs2(1) show ?thesis by (simp add: QFile_copy_def)
  next
    case (Some src)
    with fs2(1) have ne: "wfile \<noteq> dest" by auto
    with Some fs2(3) have src: "lookup_file fsys wfile = Some src" by simp
    from l Some fs2(1,2) have "f = \<lparr>content = content src, mtime = fs_clock fsys\<rparr>"
      by (auto simp: QFile_copy_def lookup_file_def map_add_def split: if_splits option.splits)
    with src show ?thesis by simp
  qed
qed

lemma lookup_file_backupOnOpen_prune:
  "lookup_file (backupOnOpen_prune m wfile dir fsys) p =
     (if p \<in> fst ` set (drop 10 (backupOnOpen_scan m wfile dir fsys)) then None
      else lookup_file fsys p)"
  by (simp add: backupOnOpen_prune_def lookup_file_def backupOnOpen_loop_files map_of_filter_fst)

text \<open>
  C5. Two opens of the same wallet file in the same calendar minute write their backup to
  the same destination. No file other than the destination is ever new after
  \<open>backupOnOpen\<close>, so the minute has at most one backup file. Whatever the destination
  held before the call, what \<open>backupOnOpen\<close> leaves there is never the old file: it is a
  copy of the wallet file as it is now, stamped now, or nothing. When the wallet file is a
  regular file other than the destination and the destination is a file position in an
  existing directory, the copy step puts the new copy there, and \<open>backupOnOpen\<close> leaves
  it there unless its own retention loop removes it as one of the entries after the
  tenth.
\<close>

theorem backupOnOpen_same_minute:
  assumes "same_minute (env_currentDateTime e1) (env_currentDateTime e2)"
  shows "let destination = backupOnOpen_destination (walletFile s) (dataDir s) (env_currentDateTime e2);
             copied = backupOnOpen_copy (walletFile s) (dataDir s) (env_currentDateTime e2) (fs s);
             pruned = fst ` set (drop 10 (backupOnOpen_scan (env_nameMatch e2) (walletFile s)
                                            (dataDir s) copied))
         in backupOnOpen_destination (walletFile s) (dataDir s) (env_currentDateTime e1) = destination
            \<and> (\<forall>p. p \<noteq> destination \<longrightarrow> lookup_file copied p = lookup_file (fs s) p)
            \<and> (\<forall>p f. p \<noteq> destination \<and> lookup_file (fs (backupOnOpen e2 s)) p = Some f \<longrightarrow>
                   lookup_file (fs s) p = Some f)
            \<and> (\<forall>src. lookup_file (fs s) (walletFile s) = Some src
                   \<and> walletFile s \<noteq> destination
                   \<and> \<not> QDir_exists (fs s) destination
                   \<and> QDir_exists (fs s) (dirPath destination) \<longrightarrow>
                   lookup_file copied destination
                     = Some \<lparr>content = content src, mtime = fs_clock (fs s)\<rparr>)
            \<and> (\<forall>f. lookup_file (fs (backupOnOpen e2 s)) destination = Some f \<longrightarrow>
                   (\<exists>src. lookup_file (fs s) (walletFile s) = Some src
                          \<and> f = \<lparr>content = content src, mtime = fs_clock (fs s)\<rparr>))
            \<and> (\<forall>src. lookup_file (fs s) (walletFile s) = Some src
                   \<and> walletFile s \<noteq> destination
                   \<and> \<not> QDir_exists (fs s) destination
                   \<and> QDir_exists (fs s) (dirPath destination) \<longrightarrow>
                   lookup_file (fs (backupOnOpen e2 s)) destination
                     = (if destination \<in> pruned then None
                        else Some \<lparr>content = content src, mtime = fs_clock (fs s)\<rparr>))"
proof -
  define dest where
    "dest = backupOnOpen_destination (walletFile s) (dataDir s) (env_currentDateTime e2)"
  define copied where
    "copied = backupOnOpen_copy (walletFile s) (dataDir s) (env_currentDateTime e2) (fs s)"
  define pruned where
    "pruned = fst ` set (drop 10 (backupOnOpen_scan (env_nameMatch e2) (walletFile s)
                                    (dataDir s) copied))"
  have after: "lookup_file (fs (backupOnOpen e2 s)) p =
                 (if p \<in> pruned then None else lookup_file copied p)" for p
    by (simp add: backupOnOpen_def copied_def pruned_def lookup_file_backupOnOpen_prune)
  have a: "backupOnOpen_destination (walletFile s) (dataDir s) (env_currentDateTime e1) = dest"
    using toString_backup_same_minute [OF assms]
    by (simp add: dest_def backupOnOpen_destination_def)
  have b: "lookup_file copied p = lookup_file (fs s) p" if "p \<noteq> dest" for p
    using that unfolding copied_def dest_def by (rule backupOnOpen_copy_other)
  have c: "lookup_file (fs s) p = Some f"
    if "p \<noteq> dest \<and> lookup_file (fs (backupOnOpen e2 s)) p = Some f" for p f
    using that b [of p] by (simp add: after split: if_splits)
  have d: "lookup_file copied dest = Some \<lparr>content = content src, mtime = fs_clock (fs s)\<rparr>"
    if "lookup_file (fs s) (walletFile s) = Some src \<and> walletFile s \<noteq> dest
        \<and> \<not> QDir_exists (fs s) dest \<and> QDir_exists (fs s) (dirPath dest)" for src
    using that unfolding copied_def dest_def
    by (intro backupOnOpen_copy_destination) auto
  have f: "\<exists>src. lookup_file (fs s) (walletFile s) = Some src
                 \<and> f = \<lparr>content = content src, mtime = fs_clock (fs s)\<rparr>"
    if "lookup_file (fs (backupOnOpen e2 s)) dest = Some f" for f
  proof -
    from that have "lookup_file copied dest = Some f"
      by (simp add: after split: if_splits)
    then show ?thesis
      unfolding copied_def dest_def by (rule backupOnOpen_copy_never_stale)
  qed
  have g: "lookup_file (fs (backupOnOpen e2 s)) dest
             = (if dest \<in> pruned then None
                else Some \<lparr>content = content src, mtime = fs_clock (fs s)\<rparr>)"
    if "lookup_file (fs s) (walletFile s) = Some src \<and> walletFile s \<noteq> dest
        \<and> \<not> QDir_exists (fs s) dest \<and> QDir_exists (fs s) (dirPath dest)" for src
    using d [OF that] by (simp add: after)
  show ?thesis
    unfolding Let_def dest_def [symmetric] copied_def [symmetric] pruned_def [symmetric]
    using a b c d f g by blast
qed

theorem backupOnOpen_same_minute_witness:
  "same_minute ex_now ex_later
   \<and> backupOnOpen_destination ''/w/my.wallet'' ''/d'' ex_now = ''/d/backup/my.09-03-2017-14-05.wallet''
   \<and> backupOnOpen_destination ''/w/my.wallet'' ''/d'' ex_later = ''/d/backup/my.09-03-2017-14-05.wallet''
   \<and> lookup_file (fs ex_reopened) ''/d/backup/my.09-03-2017-14-05.wallet''
        = Some \<lparr>content = ''keys'', mtime = 50\<rparr>
   \<and> lookup_file (backupOnOpen_copy ''/w/my.wallet'' ''/d'' ex_later (fs ex_reopened))
        ''/d/backup/my.09-03-2017-14-05.wallet'' = Some \<lparr>content = ''keys2'', mtime = 70\<rparr>
   \<and> lookup_file (fs (backupOnOpen ex_later_env ex_reopened))
        ''/d/backup/my.09-03-2017-14-05.wallet'' = Some \<lparr>content = ''keys2'', mtime = 70\<rparr>"
proof -
  have m: "same_minute (env_currentDateTime ex_env) (env_currentDateTime ex_later_env)"
    "same_minute ex_now ex_later"
    by (simp_all add: same_minute_def ex_env_def ex_later_env_def ex_now_def ex_later_def)
  have dest: "backupOnOpen_destination ''/w/my.wallet'' ''/d'' ex_later
                = ''/d/backup/my.09-03-2017-14-05.wallet''"
    by code_simp
  have dest1: "backupOnOpen_destination ''/w/my.wallet'' ''/d'' ex_now
                = ''/d/backup/my.09-03-2017-14-05.wallet''"
    by code_simp
  have h: "walletFile ex_reopened = ''/w/my.wallet''" "dataDir ex_reopened = ''/d''"
    "env_currentDateTime ex_later_env = ex_later" "env_currentDateTime ex_env = ex_now"
    "env_nameMatch ex_later_env = wildcardMatch"
    by (simp_all add: ex_reopened_def ex_adapter_def ex_later_env_def ex_env_def)
  have g: "lookup_file (fs ex_reopened) ''/w/my.wallet'' = Some \<lparr>content = ''keys2'', mtime = 60\<rparr>"
    "lookup_file (fs ex_reopened) ''/d/backup/my.09-03-2017-14-05.wallet''
        = Some \<lparr>content = ''keys'', mtime = 50\<rparr>"
    "\<not> QDir_exists (fs ex_reopened) ''/d/backup/my.09-03-2017-14-05.wallet''"
    "QDir_exists (fs ex_reopened) (dirPath ''/d/backup/my.09-03-2017-14-05.wallet'')"
    "fs_clock (fs ex_reopened) = 70"
    "''/w/my.wallet'' \<noteq> ''/d/backup/my.09-03-2017-14-05.wallet''"
    by (simp_all add: ex_reopened_def ex_adapter_def lookup_file_def QDir_exists_def dirPath_def)
  have none: "drop 10 (backupOnOpen_scan wildcardMatch ''/w/my.wallet'' ''/d''
                (backupOnOpen_copy ''/w/my.wallet'' ''/d'' ex_later (fs ex_reopened))) = []"
    by code_simp
  note t = backupOnOpen_same_minute [OF m(1), where s = ex_reopened, unfolded Let_def h dest none]
  have c: "lookup_file (backupOnOpen_copy ''/w/my.wallet'' ''/d'' ex_later (fs ex_reopened))
        ''/d/backup/my.09-03-2017-14-05.wallet'' = Some \<lparr>content = ''keys2'', mtime = 70\<rparr>"
    using t [THEN conjunct2, THEN conjunct2, THEN conjunct2, THEN conjunct1, rule_format,
             of "\<lparr>content = ''keys2'', mtime = 60\<rparr>"] g
    by simp
  have e: "lookup_file (fs (backupOnOpen ex_later_env ex_reopened))
        ''/d/backup/my.09-03-2017-14-05.wallet'' = Some \<lparr>content = ''keys2'', mtime = 70\<rparr>"
    using t [THEN conjunct2, THEN conjunct2, THEN conjunct2, THEN conjunct2, THEN conjunct2,
             rule_format, of "\<lparr>content = ''keys2'', mtime = 60\<rparr>"] g
    by simp
  show ?thesis
    using m(2) dest dest1 g(2) c e by simp
qed

lemma fs_dirs_openFile [simp]: "fs_dirs (fs (snd (openFile p r s))) = fs_dirs (fs s)"
  by (simp add: openFile_def lock_def unlock_def fstream_open_def Let_def)

lemma fs_dirs_importLegacyWallet [simp]:
  "fs_dirs (fs (snd (importLegacyWallet wp e password s))) = fs_dirs (fs s)"
  by (simp add: importLegacyWallet_def Let_def split_beta del: openFile_fields(8)
        split: import_result.split)






text \<open>
  C7. The backup of a wallet file whose name ends in \<open>.wallet\<close> goes to
  \<open><dataDir>/backup/<name>.<dd-MM-yyyy-HH-mm>.wallet\<close>.
\<close>

lemma lastIndexOf_scan_short:
  "length s < length str \<Longrightarrow> lastIndexOf_scan s str i found = found"
  by (induction s arbitrary: i found) auto

lemma lastIndexOf_scan_suffix:
  "str \<noteq> [] \<Longrightarrow> lastIndexOf_scan (x @ str) str i found = i + int (length x)"
proof (induction x arbitrary: i found)
  case Nil
  then obtain p ps where str: "str = p # ps" by (cases str) auto
  have "lastIndexOf_scan ps (p # ps) (i + 1) i = i"
    by (rule lastIndexOf_scan_short) simp
  then show ?case by (simp add: str)
next
  case (Cons c x)
  then show ?case by simp
qed

lemma lastIndexOf_suffix: "str \<noteq> [] \<Longrightarrow> lastIndexOf (x @ str) str = int (length x)"
  by (simp add: lastIndexOf_def lastIndexOf_scan_suffix)

lemma backupOnOpen_destination_wallet:
  assumes "fileName wfile = name @ ''.wallet''"
  shows "backupOnOpen_destination wfile dir now =
           filePath (backupDir dir) (name @ toString_backup now @ ''.wallet'')"
proof -
  define x where "x = backupDir dir @ ''/'' @ name"
  have d: "filePath (backupDir dir) (fileName wfile) = x @ ''.wallet''"
    by (simp add: filePath_def assms x_def)
  have "lastIndexOf (x @ ''.wallet'') ''.wallet'' = int (length x)"
    by (rule lastIndexOf_suffix) simp
  then show ?thesis
    by (simp add: backupOnOpen_destination_def Let_def d replace_at_def)
      (simp add: x_def filePath_def)
qed

text \<open>
  C7, where the code departs from it. \<open>open\<close> takes the backup before it looks for the
  legacy suffix \<open>.keys\<close>. For such a file \<open>lastIndexOf(".wallet")\<close> is \<open>-1\<close>, the
  replacement does nothing, and the backup is written without a time stamp, to
  \<open><dataDir>/backup/<name>.keys\<close>.
\<close>

theorem backupOnOpen_keys_file_untimed:
  "endsWith (walletFile ex_legacy) ''.keys''
   \<and> lookup_file (fs ex_legacy) (walletFile ex_legacy) = Some \<lparr>content = ''legacy'', mtime = 40\<rparr>
   \<and> backupOnOpen_destination (walletFile ex_legacy) (dataDir ex_legacy) ex_now = ''/d/backup/my.keys''
   \<and> lookup_file (fs (backupOnOpen ex_env ex_legacy)) ''/d/backup/my.keys''
        = Some \<lparr>content = ''legacy'', mtime = 50\<rparr>
   \<and> map fst (fs_files (fs (backupOnOpen ex_env ex_legacy))) = [''/w/my.keys'', ''/d/backup/my.keys'']"
  by code_simp

end
